theory Spec2Isabelle
  imports Main "HOL-Library.Extended_Nat" "HOL-Library.Multiset"
begin

section \<open>Monster Mayhem: the per-session game state machine (class \<open>Game\<close>)\<close>

text \<open>
  A shallow embedding of the server's \<open>Game\<close> class. Every method takes the game
  object as an explicit state and returns the updated one. A thrown \<open>TypeError\<close> is
  the left injection of a sum, a reply object \<open>{success, message}\<close> or
  \<open>{success, gameState}\<close> is a value of type \<open>reply\<close>. Player and monster ids are
  strings (connection ids and UUIDs); the objects \<open>players\<close> and \<open>turnActions\<close> are
  maps from ids to their own properties. Coordinates are integers. Console output is
  left out.
\<close>

subsection \<open>Data model\<close>

text \<open>A monster object \<open>{id, type, x, y, owner}\<close>. The type is the string the client sent.\<close>

record monster =
  m_id :: string
  m_type :: string
  m_x :: int
  m_y :: int
  m_owner :: string

text \<open>A player object \<open>{id, edge, monsters, monstersLost}\<close>.\<close>

record player =
  p_id :: string
  edge :: string
  monsters :: "monster list"
  monstersLost :: nat

text \<open>
  The per-player turn bookkeeping \<open>{placedMonster, movedMonsters}\<close>. The method
  \<open>moveMonster\<close> also reads a property \<open>placedMonsterId\<close>; no statement of the class
  assigns it, so it is \<open>None\<close> (JavaScript's \<open>undefined\<close>) in every object the class
  builds.
\<close>

record turn_action =
  placedMonster :: bool
  placedMonsterId :: "string option"
  movedMonsters :: "string set"

datatype game_status = Waiting | Active | Finished

text \<open>
  A value that is \<open>null\<close>, \<open>undefined\<close> or a player id: what \<open>getCurrentPlayer\<close> and
  \<open>checkForWinner\<close> return.
\<close>

datatype jsid = Null | Undefined | Id string

text \<open>
  The game object. The board \<open>this.board[y][x]\<close> is read as \<open>board g y x\<close>: rows
  \<open>0..9\<close> exist, and a cell holds \<open>None\<close> (\<open>null\<close>) or a monster. The object stored
  in a cell is the very object stored in its owner's roster; the model keeps a copy in
  each place and updates both where the source mutates the shared object.
\<close>

record game =
  g_id :: string
  players :: "string \<rightharpoonup> player"
  board :: "int \<Rightarrow> int \<Rightarrow> monster option"
  playerOrder :: "string list"
  currentPlayerIndex :: nat
  g_round :: nat
  availableEdges :: "string list"
  status :: game_status
  winner :: "string option"
  turnActions :: "string \<rightharpoonup> turn_action"

text \<open>The public view of a player and of the game that \<open>getState\<close> builds.\<close>

record player_view =
  v_id :: string
  v_edge :: string
  v_monsterCount :: nat
  v_monstersLost :: nat
  v_isEliminated :: bool

record snapshot =
  s_id :: string
  s_players :: "string \<rightharpoonup> player_view"
  s_board :: "int \<Rightarrow> int \<Rightarrow> monster option"
  s_currentPlayerId :: jsid
  s_round :: nat
  s_status :: game_status
  s_winner :: "string option"
  s_playerOrder :: "string list"

datatype reply = Failure string | Success string | SuccessState snapshot | Joined

datatype error = TypeError

subsection \<open>JavaScript helpers\<close>

text \<open>Truthiness of an id value: \<open>null\<close>, \<open>undefined\<close> and the empty string are falsy.\<close>

fun truthy :: "jsid \<Rightarrow> bool" where
  "truthy Null = False"
| "truthy Undefined = False"
| "truthy (Id s) = (s \<noteq> [])"

text \<open>The property key a value is converted to in \<open>this.players[v]\<close>.\<close>

fun key :: "jsid \<Rightarrow> string" where
  "key Null = ''null''"
| "key Undefined = ''undefined''"
| "key (Id s) = s"

text \<open>\<open>xs[i]\<close> for an array of ids: \<open>undefined\<close> out of range.\<close>

definition at_index :: "string list \<Rightarrow> nat \<Rightarrow> jsid" where
  "at_index xs i = (if i < length xs then Id (xs ! i) else Undefined)"

text \<open>\<open>Array.prototype.findIndex\<close>: the first index whose element satisfies the test.\<close>

fun findIndex :: "('a \<Rightarrow> bool) \<Rightarrow> 'a list \<Rightarrow> nat option" where
  "findIndex P [] = None"
| "findIndex P (x # xs) =
     (if P x then Some 0
      else (case findIndex P xs of None \<Rightarrow> None | Some i \<Rightarrow> Some (Suc i)))"

text \<open>\<open>xs.splice(i, 1)\<close>: the array without its element at \<open>i\<close>.\<close>

definition splice1 :: "nat \<Rightarrow> 'a list \<Rightarrow> 'a list" where
  "splice1 i xs = take i xs @ drop (Suc i) xs"

text \<open>
  \<open>this.board[y]?.[x]\<close>: the row is \<open>undefined\<close> outside \<open>0..9\<close>, and then so is the
  cell.
\<close>

definition rowExists :: "int \<Rightarrow> bool" where
  "rowExists y = (0 \<le> y \<and> y \<le> 9)"

definition cellAt :: "game \<Rightarrow> int \<Rightarrow> int \<Rightarrow> monster option" where
  "cellAt g x y = (if rowExists y then board g y x else None)"

definition setCell :: "game \<Rightarrow> int \<Rightarrow> int \<Rightarrow> monster option \<Rightarrow> game" where
  "setCell g x y c = g\<lparr>board := (board g)(y := (board g y)(x := c))\<rparr>"

subsection \<open>Turn bookkeeping and the current player\<close>

definition freshTurnAction :: turn_action where
  "freshTurnAction = \<lparr>placedMonster = False, placedMonsterId = None, movedMonsters = {}\<rparr>"

text \<open>
  \<open>resetTurnActions(playerId = null)\<close>: one player's record when the argument is
  truthy, otherwise the record of every player of \<open>playerOrder\<close>.
\<close>

definition resetTurnActions :: "game \<Rightarrow> jsid \<Rightarrow> game" where
  "resetTurnActions g playerId =
     (if truthy playerId
      then g\<lparr>turnActions := (turnActions g)(key playerId \<mapsto> freshTurnAction)\<rparr>
      else g\<lparr>turnActions :=
             fold (\<lambda>pid ta. ta(pid \<mapsto> freshTurnAction)) (playerOrder g) (turnActions g)\<rparr>)"

definition getCurrentPlayer :: "game \<Rightarrow> jsid" where
  "getCurrentPlayer g =
     (if status g \<noteq> Active then Null
      else if playerOrder g = [] then Null
      else at_index (playerOrder g) (currentPlayerIndex g))"

subsection \<open>Elimination, winner, end of game, public state\<close>

definition isPlayerEliminated :: "game \<Rightarrow> jsid \<Rightarrow> bool" where
  "isPlayerEliminated g playerId =
     (case players g (key playerId) of
        None \<Rightarrow> True
      | Some p \<Rightarrow> monstersLost p \<ge> 10)"

definition activePlayers :: "game \<Rightarrow> string list" where
  "activePlayers g = filter (\<lambda>pid. \<not> isPlayerEliminated g (Id pid)) (playerOrder g)"

definition checkForWinner :: "game \<Rightarrow> jsid" where
  "checkForWinner g =
     (if length (activePlayers g) = 1 \<and> length (playerOrder g) > 1
      then at_index (activePlayers g) 0
      else Null)"

definition endGame :: "game \<Rightarrow> string option \<Rightarrow> game" where
  "endGame g winnerId =
     (if status g = Finished then g
      else g\<lparr>status := Finished, winner := winnerId\<rparr>)"

definition playerView :: "game \<Rightarrow> player \<Rightarrow> player_view" where
  "playerView g p =
     \<lparr>v_id = p_id p, v_edge = edge p, v_monsterCount = length (monsters p),
      v_monstersLost = monstersLost p, v_isEliminated = isPlayerEliminated g (Id (p_id p))\<rparr>"

text \<open>
  \<open>getState\<close>. Every player object is stored in \<open>this.players\<close> under its own
  \<open>id\<close>, so the view object keyed by \<open>p.id\<close> is the map of the views.
\<close>

definition getState :: "game \<Rightarrow> snapshot" where
  "getState g =
     \<lparr>s_id = g_id g,
      s_players = (\<lambda>k. map_option (playerView g) (players g k)),
      s_board = board g,
      s_currentPlayerId = getCurrentPlayer g,
      s_round = g_round g,
      s_status = status g,
      s_winner = winner g,
      s_playerOrder = playerOrder g\<rparr>"

subsection \<open>Placement\<close>

definition monsterTypes :: "string list" where
  "monsterTypes = [''vampire'', ''werewolf'', ''ghost'']"

text \<open>The \<open>switch (player.edge)\<close> of \<open>isValidPlacement\<close>: the edge predicate.\<close>

definition onEdge :: "string \<Rightarrow> int \<Rightarrow> int \<Rightarrow> bool" where
  "onEdge e x y =
     (if e = ''top'' then y = 0
      else if e = ''bottom'' then y = 9
      else if e = ''left'' then x = 0
      else if e = ''right'' then x = 9
      else False)"

definition isValidPlacement :: "game \<Rightarrow> string \<Rightarrow> int \<Rightarrow> int \<Rightarrow> bool" where
  "isValidPlacement g playerId x y =
     (case players g playerId of
        None \<Rightarrow> False
      | Some p \<Rightarrow>
          if x < 0 \<or> x > 9 \<or> y < 0 \<or> y > 9 then False
          else if board g y x \<noteq> None then False
          else onEdge (edge p) x y)"

text \<open>Decimal rendering of the coordinates interpolated into the success messages.\<close>

function showNat :: "nat \<Rightarrow> string" where
  "showNat n =
     (if n < 10 then [''0123456789'' ! n]
      else showNat (n div 10) @ [''0123456789'' ! (n mod 10)])"
  by pat_completeness auto
termination
  by (relation "measure id") auto

declare showNat.simps [simp del]

definition showInt :: "int \<Rightarrow> string" where
  "showInt i = (if i < 0 then CHR ''-'' # showNat (nat (- i)) else showNat (nat i))"

definition hasPlaced :: "game \<Rightarrow> string \<Rightarrow> bool" where
  "hasPlaced g playerId =
     (case turnActions g playerId of None \<Rightarrow> False | Some ta \<Rightarrow> placedMonster ta)"

text \<open>
  \<open>placeMonster(playerId, type, x, y)\<close>. The id \<open>uuidv4()\<close> draws is the argument
  \<open>monsterId\<close>. Reading \<open>monsters\<close> of a missing player throws (no state reaches it:
  \<open>isValidPlacement\<close> has found the player), and so does the last assignment,
  \<open>this.turnActions[playerId].placedMonster = true\<close>, when the player has no turn
  record.
\<close>

definition placeMonster ::
  "game \<Rightarrow> string \<Rightarrow> string \<Rightarrow> string \<Rightarrow> int \<Rightarrow> int \<Rightarrow> error + reply \<times> game" where
  "placeMonster g monsterId playerId type x y =
     (if getCurrentPlayer g \<noteq> Id playerId then Inr (Failure ''Not your turn.'', g)
      else if hasPlaced g playerId
        then Inr (Failure ''You have already placed a monster this turn.'', g)
      else if type \<notin> set monsterTypes then Inr (Failure ''Invalid monster type.'', g)
      else if \<not> isValidPlacement g playerId x y
        then Inr (Failure
          ''Invalid position to place monster (must be on your edge and empty).'', g)
      else
        (let newMonster = \<lparr>m_id = monsterId, m_type = type, m_x = x, m_y = y,
                            m_owner = playerId\<rparr>
         in case players g playerId of
              None \<Rightarrow> Inl TypeError
            | Some p \<Rightarrow>
               (let g1 = g\<lparr>players :=
                           (players g)(playerId \<mapsto> p\<lparr>monsters := monsters p @ [newMonster]\<rparr>)\<rparr>;
                    g2 = setCell g1 x y (Some newMonster)
                in case turnActions g2 playerId of
                     None \<Rightarrow> Inl TypeError
                   | Some ta \<Rightarrow>
                       Inr (Success (''Monster '' @ type @ '' placed at ('' @ showInt x
                                       @ '', '' @ showInt y @ '').''),
                            g2\<lparr>turnActions :=
                                 (turnActions g2)(playerId \<mapsto> ta\<lparr>placedMonster := True\<rparr>)\<rparr>))))"

subsection \<open>Movement\<close>

text \<open>
  The body of the \<open>for\<close> loop of \<open>isValidMove\<close> at step \<open>i\<close>: \<open>False\<close> when the body
  executes \<open>return false\<close>, \<open>True\<close> when it goes on to the next step.
\<close>

definition squarePasses ::
  "game \<Rightarrow> string \<Rightarrow> int \<Rightarrow> int \<Rightarrow> int \<Rightarrow> int \<Rightarrow> int \<Rightarrow> int \<Rightarrow> int \<Rightarrow> bool" where
  "squarePasses g playerId currentX currentY newX newY dx dy i =
     (let isDiagonal = (dx > 0 \<and> dy > 0);
          isStraight = ((dx > 0 \<and> dy = 0) \<or> (dx = 0 \<and> dy > 0));
          stepX = sgn (newX - currentX);
          stepY = sgn (newY - currentY);
          steps = max dx dy;
          checkX0 = currentX + stepX * (if isStraight \<and> dx > 0 \<or> isDiagonal then i else 0);
          checkY0 = currentY + stepY * (if isStraight \<and> dy > 0 \<or> isDiagonal then i else 0);
          checkX = (if isDiagonal then currentX + stepX * min i dx else checkX0);
          checkY = (if isDiagonal then currentY + stepY * min i dy else checkY0)
      in if checkX < 0 \<or> checkX > 9 \<or> checkY < 0 \<or> checkY > 9 then True
         else (case board g checkY checkX of
                 None \<Rightarrow> True
               | Some squareContent \<Rightarrow>
                   if i < steps \<and> m_owner squareContent = playerId then True
                   else if m_owner squareContent \<noteq> playerId then False
                   else if i = steps \<and> m_owner squareContent \<noteq> playerId then False
                   else True))"

function pathLoop ::
  "game \<Rightarrow> string \<Rightarrow> int \<Rightarrow> int \<Rightarrow> int \<Rightarrow> int \<Rightarrow> int \<Rightarrow> int \<Rightarrow> int \<Rightarrow> bool" where
  "pathLoop g playerId currentX currentY newX newY dx dy i =
     (if i \<le> max dx dy
      then (if squarePasses g playerId currentX currentY newX newY dx dy i
            then pathLoop g playerId currentX currentY newX newY dx dy (i + 1)
            else False)
      else True)"
  by pat_completeness auto
termination
  by (relation "measure (\<lambda>(g, playerId, currentX, currentY, newX, newY, dx, dy, i).
        nat (max dx dy + 1 - i))") auto

declare pathLoop.simps [simp del]

definition isValidMove :: "game \<Rightarrow> string \<Rightarrow> monster \<Rightarrow> int \<Rightarrow> int \<Rightarrow> bool" where
  "isValidMove g playerId monster newX newY =
     (if newX < 0 \<or> newX > 9 \<or> newY < 0 \<or> newY > 9 then False
      else
        (let dx = \<bar>newX - m_x monster\<bar>;
             dy = \<bar>newY - m_y monster\<bar>;
             isDiagonal = (dx > 0 \<and> dy > 0);
             isStraight = ((dx > 0 \<and> dy = 0) \<or> (dx = 0 \<and> dy > 0))
         in if \<not> isStraight \<and> \<not> isDiagonal then False
            else if isDiagonal \<and> (dx > 2 \<or> dy > 2) then False
            else pathLoop g playerId (m_x monster) (m_y monster) newX newY dx dy 1))"

subsection \<open>Combat\<close>

text \<open>
  \<open>removeMonster(monsterId, ownerId)\<close>: clears the monster's cell when that cell holds
  a monster of this id, takes the monster out of the roster and counts the loss.
\<close>

definition removeMonster :: "game \<Rightarrow> string \<Rightarrow> string \<Rightarrow> game" where
  "removeMonster g monsterId ownerId =
     (case players g ownerId of
        None \<Rightarrow> g
      | Some p \<Rightarrow>
          (case findIndex (\<lambda>m. m_id m = monsterId) (monsters p) of
             None \<Rightarrow> g
           | Some monsterIndex \<Rightarrow>
               (let monster = monsters p ! monsterIndex;
                    g1 = (if map_option m_id (cellAt g (m_x monster) (m_y monster))
                             = Some monsterId
                          then setCell g (m_x monster) (m_y monster) None
                          else g)
                in g1\<lparr>players := (players g1)(ownerId \<mapsto>
                         p\<lparr>monsters := splice1 monsterIndex (monsters p),
                           monstersLost := monstersLost p + 1\<rparr>)\<rparr>)))"

text \<open>
  The dominance table of \<open>handleConflict\<close>: the value of \<open>removedMonster\<close> for the
  arriving monster and the monster that stood on the square.
\<close>

definition removedMonster :: "monster \<Rightarrow> monster \<Rightarrow> monster option" where
  "removedMonster movingMonster existingMonster =
     (let type1 = m_type movingMonster;
          type2 = m_type existingMonster
      in if (type1 = ''vampire'' \<and> type2 = ''werewolf'')
            \<or> (type1 = ''werewolf'' \<and> type2 = ''vampire'')
         then Some (if type1 = ''werewolf'' then movingMonster else existingMonster)
         else if (type1 = ''werewolf'' \<and> type2 = ''ghost'')
            \<or> (type1 = ''ghost'' \<and> type2 = ''werewolf'')
         then Some (if type1 = ''ghost'' then movingMonster else existingMonster)
         else if (type1 = ''ghost'' \<and> type2 = ''vampire'')
            \<or> (type1 = ''vampire'' \<and> type2 = ''ghost'')
         then Some (if type1 = ''vampire'' then movingMonster else existingMonster)
         else None)"

text \<open>
  \<open>handleConflict(x, y, movingPlayerId, existingMonster)\<close>. The moving monster is read
  from the cell, where \<open>moveMonster\<close> has already stored it.
\<close>

definition handleConflict :: "game \<Rightarrow> int \<Rightarrow> int \<Rightarrow> string \<Rightarrow> monster option \<Rightarrow> game" where
  "handleConflict g x y movingPlayerId existing =
     (case board g y x of
        None \<Rightarrow> g
      | Some movingMonster \<Rightarrow>
          (case existing of
             None \<Rightarrow> g
           | Some existingMonster \<Rightarrow>
               if m_owner movingMonster = m_owner existingMonster
               then (if m_type movingMonster = m_type existingMonster
                     then removeMonster
                            (removeMonster g (m_id movingMonster) (m_owner movingMonster))
                            (m_id existingMonster) (m_owner existingMonster)
                     else g)
               else (case removedMonster movingMonster existingMonster of
                       None \<Rightarrow> g
                     | Some r \<Rightarrow> removeMonster g (m_id r) (m_owner r))))"

text \<open>
  The end of \<open>moveMonster\<close> (and of \<open>removePlayer\<close>):
  \<open>const winner = this.checkForWinner(); if (winner) this.endGame(winner);\<close>
\<close>

definition declareWinner :: "game \<Rightarrow> game" where
  "declareWinner g =
     (if truthy (checkForWinner g) then endGame g (Some (key (checkForWinner g))) else g)"

definition hasMoved :: "game \<Rightarrow> string \<Rightarrow> string \<Rightarrow> bool" where
  "hasMoved g playerId monsterId =
     (case turnActions g playerId of None \<Rightarrow> False | Some ta \<Rightarrow> monsterId \<in> movedMonsters ta)"

definition justPlaced :: "game \<Rightarrow> string \<Rightarrow> monster \<Rightarrow> string \<Rightarrow> bool" where
  "justPlaced g playerId monster monsterId =
     (hasPlaced g playerId
      \<and> map_option m_id (cellAt g (m_x monster) (m_y monster)) = Some monsterId
      \<and> (case turnActions g playerId of
            None \<Rightarrow> False
          | Some ta \<Rightarrow> placedMonsterId ta = Some monsterId))"

text \<open>
  \<open>moveMonster(playerId, monsterId, newX, newY)\<close>. Reading \<open>player.monsters\<close> of a
  missing player, assigning into a missing row and adding to the moved set of a missing
  turn record throw.
\<close>

definition moveMonster ::
  "game \<Rightarrow> string \<Rightarrow> string \<Rightarrow> int \<Rightarrow> int \<Rightarrow> error + reply \<times> game" where
  "moveMonster g playerId monsterId newX newY =
     (if getCurrentPlayer g \<noteq> Id playerId then Inr (Failure ''Not your turn.'', g)
      else case players g playerId of
        None \<Rightarrow> Inl TypeError
      | Some p \<Rightarrow>
         (case findIndex (\<lambda>m. m_id m = monsterId) (monsters p) of
            None \<Rightarrow> Inr (Failure ''Monster not found.'', g)
          | Some monsterIndex \<Rightarrow>
             (let monster = monsters p ! monsterIndex in
              if justPlaced g playerId monster monsterId
                then Inr (Failure ''You cannot move the monster you just placed this turn.'', g)
              else if hasMoved g playerId monsterId
                then Inr (Failure ''This monster has already moved this turn.'', g)
              else if \<not> isValidMove g playerId monster newX newY
                then Inr (Failure ''Invalid move (distance, obstacle, or out of bounds).'', g)
              else if \<not> rowExists (m_y monster) then Inl TypeError
              else
                (let destinationContent = board g newY newX;
                     moved = monster\<lparr>m_x := newX, m_y := newY\<rparr>;
                     g1 = setCell g (m_x monster) (m_y monster) None;
                     g2 = setCell g1 newX newY (Some moved);
                     g3 = g2\<lparr>players := (players g2)(playerId \<mapsto>
                             p\<lparr>monsters := (monsters p)[monsterIndex := moved]\<rparr>)\<rparr>
                 in case turnActions g3 playerId of
                      None \<Rightarrow> Inl TypeError
                    | Some ta \<Rightarrow>
                       (let g4 = g3\<lparr>turnActions := (turnActions g3)(playerId \<mapsto>
                                  ta\<lparr>movedMonsters := insert monsterId (movedMonsters ta)\<rparr>)\<rparr>;
                            g5 = (if destinationContent \<noteq> None
                                  then handleConflict g4 newX newY playerId destinationContent
                                  else g4)
                        in Inr (Success (''Monster moved to ('' @ showInt newX @ '', ''
                                          @ showInt newY @ '').''),
                                declareWinner g5))))))"

subsection \<open>End of turn\<close>

text \<open>
  \<open>Array.prototype.sort(comparefn)\<close>. The language leaves the algorithm to the
  engine; the program runs on Node.js 18 or later, whose engine sorts with TimSort.
  An array of fewer than 64 elements is one run there: \<open>CountAndMakeRun\<close> finds the
  longest ascending or strictly descending prefix (reversing a descending one) and
  \<open>BinaryInsertionSort\<close> inserts the remaining elements one by one. The arrays sorted
  here hold at most four player ids or edges. A comparator may call \<open>Math.random\<close>, so
  it takes the number of calls made so far and returns the number after it; the sort
  looks at the sign of the comparator's value only.
\<close>

type_synonym 'a comparator = "nat \<Rightarrow> 'a \<Rightarrow> 'a \<Rightarrow> int \<times> nat"

text \<open>
  The loop of \<open>CountAndMakeRun\<close>: \<open>order = comparefn(currentElement, previousElement)\<close>;
  a descending run ends at \<open>order >= 0\<close>, an ascending one at \<open>order < 0\<close>. The result
  is the number of elements the loop adds to the run.
\<close>

fun runLoop :: "'a comparator \<Rightarrow> nat \<Rightarrow> bool \<Rightarrow> 'a \<Rightarrow> 'a list \<Rightarrow> nat \<times> nat" where
  "runLoop cmp k isDescending previousElement [] = (0, k)"
| "runLoop cmp k isDescending previousElement (currentElement # rest) =
     (if (if isDescending then fst (cmp k currentElement previousElement) \<ge> 0
          else fst (cmp k currentElement previousElement) < 0)
      then (0, snd (cmp k currentElement previousElement))
      else (Suc (fst (runLoop cmp (snd (cmp k currentElement previousElement)) isDescending
                        currentElement rest)),
            snd (runLoop cmp (snd (cmp k currentElement previousElement)) isDescending
                   currentElement rest)))"

text \<open>
  \<open>CountAndMakeRun\<close> on the whole array: the array after the reversal of a descending
  run, and the run length.
\<close>

fun countAndMakeRun :: "'a comparator \<Rightarrow> nat \<Rightarrow> 'a list \<Rightarrow> ('a list \<times> nat) \<times> nat" where
  "countAndMakeRun cmp k (elementHigh # elementLow # rest) =
     (let order = fst (cmp k elementLow elementHigh);
          isDescending = (order < 0);
          loop = runLoop cmp (snd (cmp k elementLow elementHigh)) isDescending elementLow rest;
          runLength = fst loop + 2;
          workArray = elementHigh # elementLow # rest
      in ((if isDescending then rev (take runLength workArray) @ drop runLength workArray
           else workArray, runLength), snd loop))"
| "countAndMakeRun cmp k workArray = ((workArray, length workArray), k)"

text \<open>
  The binary search of \<open>BinaryInsertionSort\<close>: \<open>order = comparefn(pivot, workArray[mid])\<close>;
  \<open>right = mid\<close> when \<open>order < 0\<close>, else \<open>left = mid + 1\<close>.
\<close>

function findInsertionPoint ::
  "'a comparator \<Rightarrow> nat \<Rightarrow> 'a \<Rightarrow> 'a list \<Rightarrow> nat \<Rightarrow> nat \<Rightarrow> nat \<times> nat" where
  "findInsertionPoint cmp k pivot workArray left right =
     (if left < right
      then (if fst (cmp k pivot (workArray ! (left + (right - left) div 2))) < 0
            then findInsertionPoint cmp
                   (snd (cmp k pivot (workArray ! (left + (right - left) div 2))))
                   pivot workArray left (left + (right - left) div 2)
            else findInsertionPoint cmp
                   (snd (cmp k pivot (workArray ! (left + (right - left) div 2))))
                   pivot workArray (left + (right - left) div 2 + 1) right)
      else (left, k))"
  by pat_completeness auto
termination
  by (relation "measure (\<lambda>(cmp, k, pivot, workArray, left, right). right - left)") auto

declare findInsertionPoint.simps [simp del]

text \<open>
  \<open>BinaryInsertionSort\<close>: \<open>sortedPart\<close> is the part of the array before \<open>start\<close>; the
  pivot is inserted at the index the search ends on.
\<close>

fun binaryInsertionSort :: "'a comparator \<Rightarrow> nat \<Rightarrow> 'a list \<Rightarrow> 'a list \<Rightarrow> 'a list \<times> nat" where
  "binaryInsertionSort cmp k sortedPart [] = (sortedPart, k)"
| "binaryInsertionSort cmp k sortedPart (pivot # rest) =
     binaryInsertionSort cmp
       (snd (findInsertionPoint cmp k pivot sortedPart 0 (length sortedPart)))
       (take (fst (findInsertionPoint cmp k pivot sortedPart 0 (length sortedPart))) sortedPart
          @ pivot
          # drop (fst (findInsertionPoint cmp k pivot sortedPart 0 (length sortedPart))) sortedPart)
       rest"

definition jsSort :: "'a comparator \<Rightarrow> 'a list \<Rightarrow> 'a list" where
  "jsSort cmp xs =
     (if length xs < 2 then xs
      else (let run = countAndMakeRun cmp 0 xs
            in fst (binaryInsertionSort cmp (snd run)
                      (take (snd (fst run)) (fst (fst run)))
                      (drop (snd (fst run)) (fst (fst run))))))"

text \<open>
  The comparator of \<open>endTurn\<close>: the roster lengths (\<open>Infinity\<close> for a missing player),
  and \<open>Math.random() - 0.5\<close> on a tie. \<open>rnd k\<close> is the value of the \<open>k\<close>-th such
  expression as far as the sort reads it: negative, zero or positive.
\<close>

definition monsterCount :: "game \<Rightarrow> string \<Rightarrow> enat" where
  "monsterCount g a =
     (case players g a of None \<Rightarrow> \<infinity> | Some p \<Rightarrow> enat (length (monsters p)))"

definition byFewestMonsters :: "game \<Rightarrow> (nat \<Rightarrow> int) \<Rightarrow> string comparator" where
  "byFewestMonsters g rnd k a b =
     (if monsterCount g a = monsterCount g b then (rnd k, Suc k)
      else if monsterCount g a < monsterCount g b then (- 1, k)
      else (1, k))"

definition advance :: "game \<Rightarrow> game" where
  "advance g =
     g\<lparr>currentPlayerIndex := (currentPlayerIndex g + 1) mod length (playerOrder g)\<rparr>"

text \<open>
  The \<open>while\<close> loop of \<open>endTurn\<close> that skips eliminated players. The result is
  \<open>(True, g)\<close> when the loop body returns from \<open>endTurn\<close> (after \<open>endGame\<close>) and
  \<open>(False, g)\<close> when the loop condition fails; \<open>None\<close> when the loop runs forever.
\<close>

partial_function (option) skipEliminated :: "game \<Rightarrow> (bool \<times> game) option" where
  "skipEliminated g =
     (if isPlayerEliminated g (getCurrentPlayer g) \<and> status g = Active
      then (if currentPlayerIndex (advance g) = 0
            then (if truthy (checkForWinner (advance g))
                  then Some (True, endGame (advance g)
                                     (Some (key (checkForWinner (advance g)))))
                  else if activePlayers (advance g) = []
                  then Some (True, endGame (advance g) None)
                  else skipEliminated (advance g))
            else skipEliminated (advance g))
      else Some (False, g))"

definition newRound :: "(nat \<Rightarrow> int) \<Rightarrow> game \<Rightarrow> game" where
  "newRound rnd g =
     g\<lparr>g_round := g_round g + 1,
       playerOrder := jsSort (byFewestMonsters g rnd) (playerOrder g),
       currentPlayerIndex := 0\<rparr>"

text \<open>
  \<open>endTurn(playerId)\<close>; \<open>rnd\<close> gives the values \<open>Math.random\<close> takes during the call.
\<close>

definition endTurn :: "(nat \<Rightarrow> int) \<Rightarrow> game \<Rightarrow> string \<Rightarrow> (reply \<times> game) option" where
  "endTurn rnd g playerId =
     (if getCurrentPlayer g \<noteq> Id playerId then Some (Failure ''Not your turn.'', g)
      else
        (let g1 = advance g;
             g2 = (if currentPlayerIndex g1 = 0 then newRound rnd g1 else g1)
         in case skipEliminated g2 of
              None \<Rightarrow> None
            | Some (returned, g3) \<Rightarrow>
                if returned then Some (SuccessState (getState g3), g3)
                else (let g4 = resetTurnActions g3 (getCurrentPlayer g3)
                      in Some (SuccessState (getState g4), g4))))"

subsection \<open>Session lifecycle\<close>

text \<open>\<open>addPlayer(playerId)\<close>; its success reply \<open>{success: true}\<close> is \<open>Joined\<close>.\<close>

definition addPlayer :: "game \<Rightarrow> string \<Rightarrow> reply \<times> game" where
  "addPlayer g playerId =
     (if length (playerOrder g) \<ge> 4 \<or> status g \<noteq> Waiting
        then (Failure ''Game full or already started.'', g)
      else if players g playerId \<noteq> None then (Failure ''Player already in game.'', g)
      else (case availableEdges g of
              [] \<Rightarrow> (Failure ''Internal error: No available edges.'', g)
            | e # rest \<Rightarrow>
                if e = [] then (Failure ''Internal error: No available edges.'',
                                g\<lparr>availableEdges := rest\<rparr>)
                else (Joined,
                      g\<lparr>availableEdges := rest,
                        players := (players g)(playerId \<mapsto>
                          \<lparr>p_id = playerId, edge = e, monsters = [], monstersLost = 0\<rparr>),
                        playerOrder := playerOrder g @ [playerId]\<rparr>)))"

text \<open>The constructor \<open>new Game(gameId, creatorId)\<close>.\<close>

definition newGame :: "string \<Rightarrow> string \<Rightarrow> game" where
  "newGame gameId creatorId =
     snd (addPlayer
       \<lparr>g_id = gameId, players = Map.empty, board = (\<lambda>y x. None), playerOrder = [],
        currentPlayerIndex = 0, g_round = 1,
        availableEdges = [''top'', ''bottom'', ''left'', ''right''],
        status = Waiting, winner = None, turnActions = Map.empty\<rparr>
       creatorId)"

text \<open>\<open>startGame()\<close>: the order is shuffled by a sort whose comparator is random.\<close>

definition shuffle :: "(nat \<Rightarrow> int) \<Rightarrow> string comparator" where
  "shuffle rnd k a b = (rnd k, Suc k)"

definition startGame :: "(nat \<Rightarrow> int) \<Rightarrow> game \<Rightarrow> bool \<times> game" where
  "startGame rnd g =
     (if status g \<noteq> Waiting then (False, g)
      else if length (playerOrder g) < 2 then (False, g)
      else (True,
            resetTurnActions
              (g\<lparr>status := Active,
                 playerOrder := jsSort (shuffle rnd) (playerOrder g),
                 currentPlayerIndex := 0,
                 g_round := 1\<rparr>)
              Null))"

text \<open>
  \<open>removePlayer(playerId)\<close>. The edge goes back to the pool, which is sorted by the
  position of each edge in \<open>["top", "bottom", "left", "right"]\<close> (\<open>indexOf\<close>, \<open>-1\<close> for
  a string that is not there); the cells that hold a monster of the player are cleared;
  the player leaves the turn order, with the current index adjusted, and the two
  objects \<open>players\<close> and \<open>turnActions\<close>; an active session is then checked for its end.
\<close>

definition edgeRank :: "string \<Rightarrow> int" where
  "edgeRank e =
     (case findIndex (\<lambda>x. x = e) [''top'', ''bottom'', ''left'', ''right''] of
        None \<Rightarrow> - 1
      | Some i \<Rightarrow> int i)"

definition byEdgeRank :: "string comparator" where
  "byEdgeRank k a b = (edgeRank a - edgeRank b, k)"

definition clearOwned :: "string \<Rightarrow> monster \<Rightarrow> game \<Rightarrow> game" where
  "clearOwned playerId monster g =
     (if map_option m_owner (cellAt g (m_x monster) (m_y monster)) = Some playerId
      then setCell g (m_x monster) (m_y monster) None
      else g)"

definition leaveOrder :: "game \<Rightarrow> string \<Rightarrow> game" where
  "leaveOrder g playerId =
     (case findIndex (\<lambda>q. q = playerId) (playerOrder g) of
        None \<Rightarrow> g
      | Some playerIndex \<Rightarrow>
          (let g1 = (if status g = Active \<and> playerIndex = currentPlayerIndex g
                     then g\<lparr>currentPlayerIndex := currentPlayerIndex g mod
                            (if length (playerOrder g) > 1 then length (playerOrder g) - 1
                             else 1)\<rparr>
                     else g);
               g2 = g1\<lparr>playerOrder := splice1 playerIndex (playerOrder g1)\<rparr>
           in if status g2 = Active \<and> playerIndex < currentPlayerIndex g2
              then g2\<lparr>currentPlayerIndex := currentPlayerIndex g2 - 1\<rparr>
              else g2))"

definition removePlayer :: "game \<Rightarrow> string \<Rightarrow> game" where
  "removePlayer g playerId =
     (case players g playerId of
        None \<Rightarrow> g
      | Some p \<Rightarrow>
          (let g1 = g\<lparr>availableEdges := jsSort byEdgeRank (availableEdges g @ [edge p])\<rparr>;
               g2 = fold (clearOwned playerId) (monsters p) g1;
               g3 = leaveOrder g2 playerId;
               g4 = g3\<lparr>players := (players g3)(playerId := None),
                       turnActions := (turnActions g3)(playerId := None)\<rparr>;
               g5 = (if status g4 = Active \<and> length (playerOrder g4) > 0
                     then g4\<lparr>currentPlayerIndex :=
                               currentPlayerIndex g4 mod length (playerOrder g4)\<rparr>
                     else if length (playerOrder g4) = 0
                     then g4\<lparr>status := Finished, winner := None\<rparr>
                     else g4)
           in if status g5 = Active
              then (if truthy (checkForWinner g5)
                    then endGame g5 (Some (key (checkForWinner g5)))
                    else if length (playerOrder g5) < 2 then endGame g5 None
                    else g5)
              else g5))"

subsection \<open>Sessions the methods can reach\<close>

text \<open>
  The states of a session: the constructor's, and every state a method call that
  returns leaves.
\<close>

inductive reachable :: "game \<Rightarrow> bool" where
  created: "reachable (newGame gameId creatorId)"
| joined: "reachable g \<Longrightarrow> reachable (snd (addPlayer g playerId))"
| left: "reachable g \<Longrightarrow> reachable (removePlayer g playerId)"
| started: "reachable g \<Longrightarrow> reachable (snd (startGame rnd g))"
| placed: "reachable g \<Longrightarrow> placeMonster g monsterId playerId type x y = Inr (r, g')
           \<Longrightarrow> reachable g'"
| moved: "reachable g \<Longrightarrow> moveMonster g playerId monsterId newX newY = Inr (r, g')
          \<Longrightarrow> reachable g'"
| turnEnded: "reachable g \<Longrightarrow> endTurn rnd g playerId = Some (r, g') \<Longrightarrow> reachable g'"

text \<open>Every monster on the board and in a roster has one of the three types.\<close>

definition typesValid :: "game \<Rightarrow> bool" where
  "typesValid g =
     ((\<forall>y x m. board g y x = Some m \<longrightarrow> m_type m \<in> set monsterTypes) \<and>
      (\<forall>q pl m. players g q = Some pl \<longrightarrow> m \<in> set (monsters pl)
         \<longrightarrow> m_type m \<in> set monsterTypes))"

text \<open>
  What keeps the methods from throwing: the turn order has no id twice, every id in it
  has a player object and, while the session is active, a turn record, and every
  monster of a roster stands in a row of the board.
\<close>

definition wellFormed :: "game \<Rightarrow> bool" where
  "wellFormed g =
     (distinct (playerOrder g)
      \<and> (\<forall>p \<in> set (playerOrder g). players g p \<noteq> None)
      \<and> (status g = Active \<longrightarrow> (\<forall>p \<in> set (playerOrder g). turnActions g p \<noteq> None))
      \<and> (\<forall>p pl m. players g p = Some pl \<longrightarrow> m \<in> set (monsters pl) \<longrightarrow> rowExists (m_y m)))"

text \<open>
  Rosters and board fit together: within a roster no id occurs twice and every monster
  names the roster's player as its owner; every monster in a cell carries that cell's
  coordinates, stands in a row of the board and is a member of its owner's roster.
\<close>

definition consistent :: "game \<Rightarrow> bool" where
  "consistent g =
     ((\<forall>p pl. players g p = Some pl \<longrightarrow>
          distinct (map m_id (monsters pl)) \<and> (\<forall>m \<in> set (monsters pl). m_owner m = p))
      \<and> (\<forall>y x e. board g y x = Some e \<longrightarrow>
            m_x e = x \<and> m_y e = y \<and> rowExists y
            \<and> (\<exists>pl. players g (m_owner e) = Some pl \<and> e \<in> set (monsters pl))))"

text \<open>
  \<open>uuidv4()\<close> draws an id that the placing player's roster does not hold yet; the
  states of a session all of whose placements draw such an id.
\<close>

definition freshId :: "game \<Rightarrow> string \<Rightarrow> string \<Rightarrow> bool" where
  "freshId g playerId monsterId =
     (case players g playerId of
        None \<Rightarrow> True
      | Some pl \<Rightarrow> monsterId \<notin> m_id ` set (monsters pl))"

inductive reachableFresh :: "game \<Rightarrow> bool" where
  created: "reachableFresh (newGame gameId creatorId)"
| joined: "reachableFresh g \<Longrightarrow> reachableFresh (snd (addPlayer g playerId))"
| left: "reachableFresh g \<Longrightarrow> reachableFresh (removePlayer g playerId)"
| started: "reachableFresh g \<Longrightarrow> reachableFresh (snd (startGame rnd g))"
| placed: "reachableFresh g \<Longrightarrow> freshId g playerId monsterId
           \<Longrightarrow> placeMonster g monsterId playerId type x y = Inr (r, g')
           \<Longrightarrow> reachableFresh g'"
| moved: "reachableFresh g \<Longrightarrow> moveMonster g playerId monsterId newX newY = Inr (r, g')
          \<Longrightarrow> reachableFresh g'"
| turnEnded: "reachableFresh g \<Longrightarrow> endTurn rnd g playerId = Some (r, g')
              \<Longrightarrow> reachableFresh g'"

subsection \<open>Concrete sessions\<close>

text \<open>
  Player \<open>P1\<close> creates a session, \<open>P2\<close> joins (and \<open>P3\<close>, for the three-player
  session), the game starts. \<open>zeros\<close> is the random source whose every tie-break is
  \<open>0\<close>, which leaves the joining order as the turn order.
\<close>

definition zeros :: "nat \<Rightarrow> int" where
  "zeros k = 0"

definition demoLobby :: game where
  "demoLobby = snd (addPlayer (newGame ''g1'' ''P1'') ''P2'')"

definition demoGame :: game where
  "demoGame = snd (startGame zeros demoLobby)"

definition trioGame :: game where
  "trioGame = snd (startGame zeros (snd (addPlayer demoLobby ''P3'')))"

text \<open>
  The intents the server passes to a session (\<open>placeMonster\<close> with the id it draws,
  \<open>moveMonster\<close>, \<open>endTurn\<close>), and a sequence of them played from a state. A call
  that throws or does not return leaves no state.
\<close>

datatype intent =
  Place string string string int int
| Move string string int int
| EndTurn string

fun applyIntent :: "(nat \<Rightarrow> int) \<Rightarrow> game \<Rightarrow> intent \<Rightarrow> game option" where
  "applyIntent rnd g (Place monsterId playerId type x y) =
     (case placeMonster g monsterId playerId type x y of
        Inl e \<Rightarrow> None
      | Inr res \<Rightarrow> Some (snd res))"
| "applyIntent rnd g (Move playerId monsterId newX newY) =
     (case moveMonster g playerId monsterId newX newY of
        Inl e \<Rightarrow> None
      | Inr res \<Rightarrow> Some (snd res))"
| "applyIntent rnd g (EndTurn playerId) = map_option snd (endTurn rnd g playerId)"

fun play :: "(nat \<Rightarrow> int) \<Rightarrow> game \<Rightarrow> intent list \<Rightarrow> game option" where
  "play rnd g [] = Some g"
| "play rnd g (i # rest) =
     (case applyIntent rnd g i of None \<Rightarrow> None | Some g' \<Rightarrow> play rnd g' rest)"

text \<open>
  The two-player session after \<open>P1\<close> has placed a vampire on \<open>(3, 0)\<close>, and after
  \<open>P1\<close> has then moved it to \<open>(3, 1)\<close> in the same turn.
\<close>

definition vampireAt30 :: monster where
  "vampireAt30 = \<lparr>m_id = ''m1'', m_type = ''vampire'', m_x = 3, m_y = 0, m_owner = ''P1''\<rparr>"

definition placedGame :: game where
  "placedGame = demoGame
     \<lparr>players := (players demoGame)(''P1'' \<mapsto>
        \<lparr>p_id = ''P1'', edge = ''top'', monsters = [vampireAt30], monstersLost = 0\<rparr>),
      board := (board demoGame)(0 := (board demoGame 0)(3 \<mapsto> vampireAt30)),
      turnActions := (turnActions demoGame)(''P1'' \<mapsto>
        \<lparr>placedMonster = True, placedMonsterId = None, movedMonsters = {}\<rparr>)\<rparr>"

definition movedGame :: game where
  "movedGame = placedGame
     \<lparr>players := (players placedGame)(''P1'' \<mapsto>
        \<lparr>p_id = ''P1'', edge = ''top'', monsters = [vampireAt30\<lparr>m_x := 3, m_y := 1\<rparr>],
         monstersLost = 0\<rparr>),
      board := (board placedGame)
        (0 := (board placedGame 0)(3 := None),
         1 := (board placedGame 1)(3 \<mapsto> vampireAt30\<lparr>m_x := 3, m_y := 1\<rparr>)),
      turnActions := (turnActions placedGame)(''P1'' \<mapsto>
        \<lparr>placedMonster = True, placedMonsterId = None, movedMonsters = {''m1''}\<rparr>)\<rparr>"

text \<open>
  The duel: round 3 of the two-player session, \<open>P1\<close> to move. \<open>P1\<close> owns the monster
  \<open>a1\<close> of type \<open>t1\<close> on \<open>(5, 0)\<close>; \<open>P2\<close> owns the monster \<open>b1\<close> of type \<open>t2\<close> on
  \<open>(5, 2)\<close>, where it moved in round 2.
\<close>

definition attacker :: "string \<Rightarrow> monster" where
  "attacker t = \<lparr>m_id = ''a1'', m_type = t, m_x = 5, m_y = 0, m_owner = ''P1''\<rparr>"

definition defender :: "string \<Rightarrow> monster" where
  "defender t = \<lparr>m_id = ''b1'', m_type = t, m_x = 5, m_y = 2, m_owner = ''P2''\<rparr>"

definition duelGame :: "string \<Rightarrow> string \<Rightarrow> game" where
  "duelGame t1 t2 =
     \<lparr>g_id = ''g1'',
      players =
        [''P1'' \<mapsto> \<lparr>p_id = ''P1'', edge = ''top'', monsters = [attacker t1],
                     monstersLost = 0\<rparr>,
         ''P2'' \<mapsto> \<lparr>p_id = ''P2'', edge = ''bottom'', monsters = [defender t2],
                     monstersLost = 0\<rparr>],
      board = (\<lambda>y x. None)(0 := [5 \<mapsto> attacker t1], 2 := [5 \<mapsto> defender t2]),
      playerOrder = [''P1'', ''P2''],
      currentPlayerIndex = 0,
      g_round = 3,
      availableEdges = [''left'', ''right''],
      status = Active,
      winner = None,
      turnActions =
        [''P1'' \<mapsto> freshTurnAction,
         ''P2'' \<mapsto> \<lparr>placedMonster = False, placedMonsterId = None,
                     movedMonsters = {''b1''}\<rparr>]\<rparr>"

text \<open>
  The intents that lead from the start of the two-player session to the duel.
\<close>

definition duelIntents :: "string \<Rightarrow> string \<Rightarrow> intent list" where
  "duelIntents t1 t2 =
     [Place ''a1'' ''P1'' t1 5 0, EndTurn ''P1'',
      Place ''b1'' ''P2'' t2 5 9, EndTurn ''P2'',
      EndTurn ''P1'',
      Move ''P2'' ''b1'' 5 2, EndTurn ''P2'']"

text \<open>
  The stack: round 4 of the two-player session, \<open>P1\<close> to move. \<open>P1\<close> owns the monster
  \<open>a2\<close> of type \<open>t2\<close> on \<open>(5, 2)\<close>, where it moved in round 2, and the monster \<open>a1\<close>
  of type \<open>t1\<close> on \<open>(5, 0)\<close>, placed in round 3; \<open>P2\<close> has no monster and leads the
  order. And the intents that lead there.
\<close>

definition blocker :: "string \<Rightarrow> monster" where
  "blocker t = \<lparr>m_id = ''a2'', m_type = t, m_x = 5, m_y = 2, m_owner = ''P1''\<rparr>"

definition stackGame :: "string \<Rightarrow> string \<Rightarrow> game" where
  "stackGame t1 t2 =
     \<lparr>g_id = ''g1'',
      players =
        [''P1'' \<mapsto> \<lparr>p_id = ''P1'', edge = ''top'', monsters = [blocker t2, attacker t1],
                     monstersLost = 0\<rparr>,
         ''P2'' \<mapsto> \<lparr>p_id = ''P2'', edge = ''bottom'', monsters = [], monstersLost = 0\<rparr>],
      board = (\<lambda>y x. None)(0 := [5 \<mapsto> attacker t1], 2 := [5 \<mapsto> blocker t2]),
      playerOrder = [''P2'', ''P1''],
      currentPlayerIndex = 1,
      g_round = 4,
      availableEdges = [''left'', ''right''],
      status = Active,
      winner = None,
      turnActions = [''P1'' \<mapsto> freshTurnAction, ''P2'' \<mapsto> freshTurnAction]\<rparr>"

definition stackIntents :: "string \<Rightarrow> string \<Rightarrow> intent list" where
  "stackIntents t1 t2 =
     [Place ''a2'' ''P1'' t2 5 0, EndTurn ''P1'', EndTurn ''P2'',
      EndTurn ''P2'', Move ''P1'' ''a2'' 5 2, EndTurn ''P1'',
      EndTurn ''P2'', Place ''a1'' ''P1'' t1 5 0, EndTurn ''P1'',
      EndTurn ''P2'']"

text \<open>The roster and the loss count of a player, when the player is in the session.\<close>

definition rosterOf :: "game \<Rightarrow> string \<Rightarrow> monster list option" where
  "rosterOf g playerId = map_option monsters (players g playerId)"

definition lostOf :: "game \<Rightarrow> string \<Rightarrow> nat option" where
  "lostOf g playerId = map_option monstersLost (players g playerId)"



text \<open>
  Sessions in which \<open>P1\<close> loses monsters two by two. \<open>P1\<close> places a vampire on
  \<open>(5, 0)\<close> and moves it to \<open>(5, 1)\<close> in the same turn; a turn later \<open>P1\<close> does the
  same with a second vampire, which lands on the first. \<open>restGame n r ta\<close> is the
  two-player session between two such collisions: round \<open>r\<close> begins, \<open>P2\<close> leads the
  order and is to move, the board is empty, \<open>P1\<close> has lost \<open>n\<close> monsters and has the
  turn record \<open>ta\<close>. \<open>selfCollision a b\<close> are the intents of the next two rounds, with
  the ids \<open>a\<close> and \<open>b\<close> drawn for the two vampires.
\<close>

definition vampireOf :: "string \<Rightarrow> string \<Rightarrow> int \<Rightarrow> int \<Rightarrow> monster" where
  "vampireOf owner i x y =
     \<lparr>m_id = i, m_type = ''vampire'', m_x = x, m_y = y, m_owner = owner\<rparr>"

definition movedOnly :: "string \<Rightarrow> turn_action" where
  "movedOnly b = \<lparr>placedMonster = True, placedMonsterId = None, movedMonsters = {b}\<rparr>"

definition restGame :: "nat \<Rightarrow> nat \<Rightarrow> turn_action \<Rightarrow> game" where
  "restGame n r ta =
     \<lparr>g_id = ''g1'',
      players =
        [''P1'' \<mapsto> \<lparr>p_id = ''P1'', edge = ''top'', monsters = [], monstersLost = n\<rparr>,
         ''P2'' \<mapsto> \<lparr>p_id = ''P2'', edge = ''bottom'', monsters = [], monstersLost = 0\<rparr>],
      board = (\<lambda>y x. None),
      playerOrder = [''P2'', ''P1''],
      currentPlayerIndex = 0,
      g_round = r,
      availableEdges = [''left'', ''right''],
      status = Active,
      winner = None,
      turnActions = [''P1'' \<mapsto> ta, ''P2'' \<mapsto> freshTurnAction]\<rparr>"

definition selfCollision :: "string \<Rightarrow> string \<Rightarrow> intent list" where
  "selfCollision a b =
     [EndTurn ''P2'', Place a ''P1'' ''vampire'' 5 0, Move ''P1'' a 5 1, EndTurn ''P1'',
      EndTurn ''P2'', Place b ''P1'' ''vampire'' 5 0, Move ''P1'' b 5 1, EndTurn ''P1'']"

text \<open>
  The last stand: after four collisions \<open>P1\<close> has lost eight monsters; in round 10
  \<open>P1\<close> has the vampire \<open>a9\<close> on \<open>(5, 1)\<close>, has just placed the vampire \<open>a10\<close> on
  \<open>(5, 0)\<close> and is to move. \<open>lastStandIntents\<close> lead there from the start of the
  two-player session. \<open>arrivedStand\<close> is the state in which \<open>moveMonster\<close> calls
  \<open>handleConflict\<close> when \<open>a10\<close> arrives on \<open>(5, 1)\<close>, and \<open>lastStandEnd\<close> the session
  after that move.
\<close>

definition lastStandIntents :: "intent list" where
  "lastStandIntents =
     [Place ''a1'' ''P1'' ''vampire'' 5 0, Move ''P1'' ''a1'' 5 1, EndTurn ''P1'',
      EndTurn ''P2'', EndTurn ''P2'',
      Place ''a2'' ''P1'' ''vampire'' 5 0, Move ''P1'' ''a2'' 5 1, EndTurn ''P1'']
     @ selfCollision ''a3'' ''a4'' @ selfCollision ''a5'' ''a6'' @ selfCollision ''a7'' ''a8''
     @ [EndTurn ''P2'', Place ''a9'' ''P1'' ''vampire'' 5 0, Move ''P1'' ''a9'' 5 1,
        EndTurn ''P1'', EndTurn ''P2'', Place ''a10'' ''P1'' ''vampire'' 5 0]"

definition lastStand :: game where
  "lastStand =
     \<lparr>g_id = ''g1'',
      players =
        [''P1'' \<mapsto> \<lparr>p_id = ''P1'', edge = ''top'',
                     monsters = [vampireOf ''P1'' ''a9'' 5 1, vampireOf ''P1'' ''a10'' 5 0],
                     monstersLost = 8\<rparr>,
         ''P2'' \<mapsto> \<lparr>p_id = ''P2'', edge = ''bottom'', monsters = [], monstersLost = 0\<rparr>],
      board = (\<lambda>y x. None)(0 := [5 \<mapsto> vampireOf ''P1'' ''a10'' 5 0],
                               1 := [5 \<mapsto> vampireOf ''P1'' ''a9'' 5 1]),
      playerOrder = [''P2'', ''P1''],
      currentPlayerIndex = 1,
      g_round = 10,
      availableEdges = [''left'', ''right''],
      status = Active,
      winner = None,
      turnActions =
        [''P1'' \<mapsto> \<lparr>placedMonster = True, placedMonsterId = None, movedMonsters = {}\<rparr>,
         ''P2'' \<mapsto> freshTurnAction]\<rparr>"

definition arrivedStand :: game where
  "arrivedStand = lastStand
     \<lparr>players := (players lastStand)(''P1'' \<mapsto>
        \<lparr>p_id = ''P1'', edge = ''top'',
         monsters = [vampireOf ''P1'' ''a9'' 5 1, vampireOf ''P1'' ''a10'' 5 1],
         monstersLost = 8\<rparr>),
      board := (board lastStand)
        (0 := (board lastStand 0)(5 := None),
         1 := (board lastStand 1)(5 \<mapsto> vampireOf ''P1'' ''a10'' 5 1)),
      turnActions := (turnActions lastStand)(''P1'' \<mapsto>
        \<lparr>placedMonster = True, placedMonsterId = None, movedMonsters = {''a10''}\<rparr>)\<rparr>"

definition lastStandEnd :: game where
  "lastStandEnd = arrivedStand
     \<lparr>players := (players arrivedStand)(''P1'' \<mapsto>
        \<lparr>p_id = ''P1'', edge = ''top'', monsters = [], monstersLost = 10\<rparr>),
      board := (\<lambda>y x. None),
      status := Finished,
      winner := Some ''P2''\<rparr>"

text \<open>
  The same in the three-player session: \<open>trioRest n r ta\<close> between two collisions,
  \<open>trioCollision a b\<close> the intents of the next two rounds, and \<open>trioOut\<close> the session
  after the fifth collision, reached by \<open>trioOutIntents\<close>: \<open>P1\<close> has lost ten
  monsters, \<open>P2\<close> and \<open>P3\<close> none. \<open>trioOutLeft\<close> is that session after \<open>P3\<close> has left.
\<close>

definition trioRest :: "nat \<Rightarrow> nat \<Rightarrow> turn_action \<Rightarrow> game" where
  "trioRest n r ta =
     \<lparr>g_id = ''g1'',
      players =
        [''P1'' \<mapsto> \<lparr>p_id = ''P1'', edge = ''top'', monsters = [], monstersLost = n\<rparr>,
         ''P2'' \<mapsto> \<lparr>p_id = ''P2'', edge = ''bottom'', monsters = [], monstersLost = 0\<rparr>,
         ''P3'' \<mapsto> \<lparr>p_id = ''P3'', edge = ''left'', monsters = [], monstersLost = 0\<rparr>],
      board = (\<lambda>y x. None),
      playerOrder = [''P2'', ''P3'', ''P1''],
      currentPlayerIndex = 0,
      g_round = r,
      availableEdges = [''right''],
      status = Active,
      winner = None,
      turnActions = [''P1'' \<mapsto> ta, ''P2'' \<mapsto> freshTurnAction,
                     ''P3'' \<mapsto> freshTurnAction]\<rparr>"

definition trioCollision :: "string \<Rightarrow> string \<Rightarrow> intent list" where
  "trioCollision a b =
     [EndTurn ''P2'', EndTurn ''P3'',
      Place a ''P1'' ''vampire'' 5 0, Move ''P1'' a 5 1, EndTurn ''P1'',
      EndTurn ''P2'', EndTurn ''P3'',
      Place b ''P1'' ''vampire'' 5 0, Move ''P1'' b 5 1, EndTurn ''P1'']"

definition trioOutIntents :: "intent list" where
  "trioOutIntents =
     [Place ''a1'' ''P1'' ''vampire'' 5 0, Move ''P1'' ''a1'' 5 1, EndTurn ''P1'',
      EndTurn ''P2'', EndTurn ''P3'', EndTurn ''P2'', EndTurn ''P3'',
      Place ''a2'' ''P1'' ''vampire'' 5 0, Move ''P1'' ''a2'' 5 1, EndTurn ''P1'']
     @ trioCollision ''a3'' ''a4'' @ trioCollision ''a5'' ''a6'' @ trioCollision ''a7'' ''a8''
     @ [EndTurn ''P2'', EndTurn ''P3'',
        Place ''a9'' ''P1'' ''vampire'' 5 0, Move ''P1'' ''a9'' 5 1, EndTurn ''P1'',
        EndTurn ''P2'', EndTurn ''P3'',
        Place ''a10'' ''P1'' ''vampire'' 5 0, Move ''P1'' ''a10'' 5 1]"

definition trioOut :: game where
  "trioOut =
     \<lparr>g_id = ''g1'',
      players =
        [''P1'' \<mapsto> \<lparr>p_id = ''P1'', edge = ''top'', monsters = [], monstersLost = 10\<rparr>,
         ''P2'' \<mapsto> \<lparr>p_id = ''P2'', edge = ''bottom'', monsters = [], monstersLost = 0\<rparr>,
         ''P3'' \<mapsto> \<lparr>p_id = ''P3'', edge = ''left'', monsters = [], monstersLost = 0\<rparr>],
      board = (\<lambda>y x. None),
      playerOrder = [''P2'', ''P3'', ''P1''],
      currentPlayerIndex = 2,
      g_round = 10,
      availableEdges = [''right''],
      status = Active,
      winner = None,
      turnActions = [''P1'' \<mapsto> movedOnly ''a10'', ''P2'' \<mapsto> freshTurnAction,
                     ''P3'' \<mapsto> freshTurnAction]\<rparr>"

definition trioOutLeft :: game where
  "trioOutLeft = trioOut
     \<lparr>players := (players trioOut)(''P3'' := None),
      turnActions := (turnActions trioOut)(''P3'' := None),
      playerOrder := [''P2'', ''P1''],
      currentPlayerIndex := 1,
      availableEdges := [''left'', ''right''],
      status := Finished,
      winner := Some ''P2''\<rparr>"

subsection \<open>Notions for the movement rule\<close>

text \<open>
  The \<open>j\<close>-th square of the path \<open>isValidMove\<close> walks from a monster to \<open>(newX, newY)\<close>,
  and what stops the walk there: a square of the board that holds a monster of another
  player.
\<close>

definition blocksPath :: "game \<Rightarrow> string \<Rightarrow> int \<Rightarrow> int \<Rightarrow> bool" where
  "blocksPath g playerId x y =
     (0 \<le> x \<and> x \<le> 9 \<and> 0 \<le> y \<and> y \<le> 9
      \<and> (case board g y x of None \<Rightarrow> False | Some m \<Rightarrow> m_owner m \<noteq> playerId))"

definition pathX :: "monster \<Rightarrow> int \<Rightarrow> int \<Rightarrow> int" where
  "pathX monster newX j = m_x monster + sgn (newX - m_x monster) * min j \<bar>newX - m_x monster\<bar>"

definition pathY :: "monster \<Rightarrow> int \<Rightarrow> int \<Rightarrow> int" where
  "pathY monster newY j = m_y monster + sgn (newY - m_y monster) * min j \<bar>newY - m_y monster\<bar>"

subsection \<open>Notions for combat\<close>

text \<open>
  The state in which \<open>moveMonster\<close> looks at the destination: the monster at index
  \<open>i\<close> of the roster of \<open>pl\<close> has left its cell, stands in the cell
  \<open>(newX, newY)\<close> and in the roster with its new coordinates, and is in the moved set
  of the turn record \<open>ta\<close>.
\<close>

definition arrival ::
  "game \<Rightarrow> string \<Rightarrow> player \<Rightarrow> nat \<Rightarrow> turn_action \<Rightarrow> string \<Rightarrow> int \<Rightarrow> int \<Rightarrow> game" where
  "arrival g p pl i ta monsterId newX newY =
     (let monster = monsters pl ! i;
          moved = monster\<lparr>m_x := newX, m_y := newY\<rparr>
      in g\<lparr>board := (board (setCell g (m_x monster) (m_y monster) None))
                      (newY := (board (setCell g (m_x monster) (m_y monster) None) newY)
                                 (newX \<mapsto> moved)),
           players := (players g)(p \<mapsto> pl\<lparr>monsters := (monsters pl)[i := moved]\<rparr>),
           turnActions := (turnActions g)(p \<mapsto>
              ta\<lparr>movedMonsters := insert monsterId (movedMonsters ta)\<rparr>)\<rparr>)"

subsection \<open>Notions for the end of a turn\<close>

text \<open>
  A comparator agrees with a key when a negative value means that the first argument's
  key is not greater, and any other value that it is not smaller; its values on equal
  keys are free.
\<close>

definition agrees :: "'a comparator \<Rightarrow> ('a \<Rightarrow> 'b::linorder) \<Rightarrow> bool" where
  "agrees cmp f =
     (\<forall>k a b. (fst (cmp k a b) < 0 \<longrightarrow> f a \<le> f b) \<and> (fst (cmp k a b) \<ge> 0 \<longrightarrow> f b \<le> f a))"

text \<open>
  What the skip loop leaves as it is: rosters, order, board, round and turn records;
  the index stays inside the order; the loop either ends the game or stops at a
  player who is not eliminated, with status and winner untouched.
\<close>

definition skipKeeps :: "game \<Rightarrow> bool \<times> game \<Rightarrow> bool" where
  "skipKeeps g y =
     (players (snd y) = players g \<and> playerOrder (snd y) = playerOrder g
      \<and> board (snd y) = board g \<and> g_round (snd y) = g_round g
      \<and> turnActions (snd y) = turnActions g
      \<and> (currentPlayerIndex g < length (playerOrder g)
           \<longrightarrow> currentPlayerIndex (snd y) < length (playerOrder g))
      \<and> (if fst y then status (snd y) = Finished
          else status (snd y) = status g \<and> winner (snd y) = winner g
               \<and> \<not> (isPlayerEliminated (snd y) (getCurrentPlayer (snd y))
                      \<and> status (snd y) = Active)))"

text \<open>
  The end of round 1 of the two-player session: \<open>P1\<close> has placed a vampire on
  \<open>(5, 0)\<close> and ended the turn, \<open>P2\<close> is to move and has no monster. And the session
  after \<open>P2\<close> has ended the turn too.
\<close>

definition roundEndGame :: game where
  "roundEndGame = demoGame
     \<lparr>players := (players demoGame)(''P1'' \<mapsto>
        \<lparr>p_id = ''P1'', edge = ''top'', monsters = [attacker ''vampire''],
         monstersLost = 0\<rparr>),
      board := (board demoGame)(0 := (board demoGame 0)(5 \<mapsto> attacker ''vampire'')),
      currentPlayerIndex := 1,
      turnActions := (turnActions demoGame)(''P1'' \<mapsto>
        \<lparr>placedMonster = True, placedMonsterId = None, movedMonsters = {}\<rparr>)\<rparr>"

definition newRoundGame :: game where
  "newRoundGame = roundEndGame
     \<lparr>playerOrder := [''P2'', ''P1''], currentPlayerIndex := 0, g_round := 2\<rparr>"

text \<open>
  The same in the three-player session: in round 1 \<open>P1\<close> and \<open>P2\<close> have each placed
  a vampire and ended the turn (\<open>staleIntents\<close>), \<open>P3\<close> is to move (\<open>roundEndTrio\<close>);
  \<open>P3\<close> ends the turn and leads round 2 (\<open>newRoundTrio\<close>); then \<open>P3\<close> leaves
  (\<open>staleGame\<close>).
\<close>

definition staleIntents :: "intent list" where
  "staleIntents =
     [Place ''a1'' ''P1'' ''vampire'' 5 0, EndTurn ''P1'',
      Place ''b1'' ''P2'' ''vampire'' 5 9, EndTurn ''P2'']"

definition roundEndTrio :: game where
  "roundEndTrio = trioGame
     \<lparr>players := (players trioGame)
        (''P1'' \<mapsto> \<lparr>p_id = ''P1'', edge = ''top'',
                      monsters = [vampireOf ''P1'' ''a1'' 5 0], monstersLost = 0\<rparr>,
         ''P2'' \<mapsto> \<lparr>p_id = ''P2'', edge = ''bottom'',
                      monsters = [vampireOf ''P2'' ''b1'' 5 9], monstersLost = 0\<rparr>),
      board := (\<lambda>y x. None)(0 := [5 \<mapsto> vampireOf ''P1'' ''a1'' 5 0],
                                9 := [5 \<mapsto> vampireOf ''P2'' ''b1'' 5 9]),
      currentPlayerIndex := 2,
      turnActions := (turnActions trioGame)
        (''P1'' \<mapsto> \<lparr>placedMonster = True, placedMonsterId = None, movedMonsters = {}\<rparr>,
         ''P2'' \<mapsto> \<lparr>placedMonster = True, placedMonsterId = None, movedMonsters = {}\<rparr>)\<rparr>"

definition newRoundTrio :: game where
  "newRoundTrio = roundEndTrio
     \<lparr>playerOrder := [''P3'', ''P1'', ''P2''], currentPlayerIndex := 0, g_round := 2\<rparr>"

definition staleGame :: game where
  "staleGame = newRoundTrio
     \<lparr>players := (players newRoundTrio)(''P3'' := None),
      turnActions := (turnActions newRoundTrio)(''P3'' := None),
      playerOrder := [''P1'', ''P2''],
      availableEdges := [''left'', ''right'']\<rparr>"

section \<open>Properties\<close>

subsection \<open>The concrete sessions, evaluated\<close>

lemmas lifecycle_defs =
  newGame_def addPlayer_def startGame_def shuffle_def jsSort_def resetTurnActions_def
  zeros_def

lemma demoGame_eq:
  "demoGame =
     \<lparr>g_id = ''g1'',
      players = [''P1'' \<mapsto> \<lparr>p_id = ''P1'', edge = ''top'', monsters = [], monstersLost = 0\<rparr>,
                 ''P2'' \<mapsto> \<lparr>p_id = ''P2'', edge = ''bottom'', monsters = [], monstersLost = 0\<rparr>],
      board = (\<lambda>y x. None),
      playerOrder = [''P1'', ''P2''],
      currentPlayerIndex = 0,
      g_round = 1,
      availableEdges = [''left'', ''right''],
      status = Active,
      winner = None,
      turnActions = [''P1'' \<mapsto> freshTurnAction, ''P2'' \<mapsto> freshTurnAction]\<rparr>"
  by (simp add: demoGame_def demoLobby_def lifecycle_defs)

lemma trioGame_eq:
  "trioGame =
     \<lparr>g_id = ''g1'',
      players = [''P1'' \<mapsto> \<lparr>p_id = ''P1'', edge = ''top'', monsters = [], monstersLost = 0\<rparr>,
                 ''P2'' \<mapsto> \<lparr>p_id = ''P2'', edge = ''bottom'', monsters = [], monstersLost = 0\<rparr>,
                 ''P3'' \<mapsto> \<lparr>p_id = ''P3'', edge = ''left'', monsters = [], monstersLost = 0\<rparr>],
      board = (\<lambda>y x. None),
      playerOrder = [''P1'', ''P2'', ''P3''],
      currentPlayerIndex = 0,
      g_round = 1,
      availableEdges = [''right''],
      status = Active,
      winner = None,
      turnActions = [''P1'' \<mapsto> freshTurnAction, ''P2'' \<mapsto> freshTurnAction,
                     ''P3'' \<mapsto> freshTurnAction]\<rparr>"
  by (simp add: trioGame_def demoLobby_def lifecycle_defs)

lemma skipEliminated_stop:
  "\<not> (isPlayerEliminated g (getCurrentPlayer g) \<and> status g = Active)
   \<Longrightarrow> skipEliminated g = Some (False, g)"
  by (subst skipEliminated.simps) (simp only: if_False)

lemmas place_defs =
  placeMonster_def getCurrentPlayer_def at_index_def hasPlaced_def freshTurnAction_def
  monsterTypes_def isValidPlacement_def onEdge_def setCell_def showInt_def showNat.simps
  Let_def

lemmas move_defs =
  moveMonster_def getCurrentPlayer_def at_index_def hasPlaced_def hasMoved_def
  justPlaced_def isValidMove_def pathLoop.simps squarePasses_def cellAt_def rowExists_def
  setCell_def showInt_def showNat.simps Let_def declareWinner_def checkForWinner_def
  activePlayers_def isPlayerEliminated_def handleConflict_def removedMonster_def
  removeMonster_def endGame_def splice1_def freshTurnAction_def

lemmas turn_defs =
  endTurn_def getCurrentPlayer_def at_index_def advance_def newRound_def jsSort_def
  byFewestMonsters_def monsterCount_def zeros_def skipEliminated_stop
  isPlayerEliminated_def resetTurnActions_def freshTurnAction_def Let_def

lemma place_vampire:
  "placeMonster demoGame ''m1'' ''P1'' ''vampire'' 3 0
     = Inr (Success ''Monster vampire placed at (3, 0).'', placedGame)"
  by (simp add: placedGame_def vampireAt30_def demoGame_eq place_defs)

subsection \<open>End of game\<close>

text \<open>
  C8. \<open>endGame\<close> is idempotent. The first call on a session that is not finished sets
  the status to finished and stores the supplied winner (or none); a call on a finished
  session changes nothing, so status, winner and the \<open>getState\<close> snapshot stay as they
  are, whatever winner the later call supplies.
\<close>

theorem endGame_idempotent:
  "(status g \<noteq> Finished \<longrightarrow>
      status (endGame g w) = Finished \<and> winner (endGame g w) = w) \<and>
   (status g = Finished \<longrightarrow> endGame g w = g) \<and>
   endGame (endGame g w) w' = endGame g w \<and>
   status (endGame (endGame g w) w') = status (endGame g w) \<and>
   winner (endGame (endGame g w) w') = winner (endGame g w) \<and>
   getState (endGame (endGame g w) w') = getState (endGame g w)"
  by (simp add: endGame_def)

theorem endGame_idempotent_witness:
  "status demoGame \<noteq> Finished \<and>
   status (endGame demoGame (Some ''P1'')) = Finished \<and>
   winner (endGame demoGame (Some ''P1'')) = Some ''P1'' \<and>
   endGame (endGame demoGame (Some ''P1'')) None = endGame demoGame (Some ''P1'') \<and>
   winner (endGame (endGame demoGame (Some ''P1'')) None) = Some ''P1'' \<and>
   getState (endGame (endGame demoGame (Some ''P1'')) None)
     = getState (endGame demoGame (Some ''P1''))"
proof -
  have active: "status demoGame = Active"
    by (simp add: demoGame_eq)
  then have first: "status demoGame \<noteq> Finished"
    by simp
  have second: "status (endGame demoGame (Some ''P1'')) = Finished"
    using first endGame_idempotent [of demoGame "Some ''P1''" None] by simp
  show ?thesis
    using first second endGame_idempotent [of demoGame "Some ''P1''" None]
      endGame_idempotent [of "endGame demoGame (Some ''P1'')" None None]
    by simp
qed

subsection \<open>Turn safety\<close>

lemma getCurrentPlayer_cases:
  "getCurrentPlayer g = Null
   \<or> getCurrentPlayer g = at_index (playerOrder g) (currentPlayerIndex g)"
  by (simp add: getCurrentPlayer_def)

text \<open>
  C5. A player \<open>p\<close> who is not \<open>playerOrder[currentPlayerIndex]\<close> (also when that
  entry does not exist) gets the failure "Not your turn." from \<open>placeMonster\<close>,
  \<open>moveMonster\<close> and \<open>endTurn\<close>, whatever the other arguments are, and the returned
  session is the session as it was: board, rosters, turn bookkeeping, status and winner
  are all unchanged.
\<close>

theorem not_your_turn_rejected:
  assumes "at_index (playerOrder g) (currentPlayerIndex g) \<noteq> Id p"
  shows "placeMonster g monsterId p type x y = Inr (Failure ''Not your turn.'', g) \<and>
         moveMonster g p movedId newX newY = Inr (Failure ''Not your turn.'', g) \<and>
         endTurn rnd g p = Some (Failure ''Not your turn.'', g)"
proof -
  have "getCurrentPlayer g \<noteq> Id p"
    using assms getCurrentPlayer_cases [of g] by auto
  then show ?thesis
    by (simp add: placeMonster_def moveMonster_def endTurn_def)
qed

theorem not_your_turn_rejected_witness:
  "at_index (playerOrder demoGame) (currentPlayerIndex demoGame) \<noteq> Id ''P2'' \<and>
   placeMonster demoGame ''m9'' ''P2'' ''ghost'' 4 9
     = Inr (Failure ''Not your turn.'', demoGame) \<and>
   moveMonster demoGame ''P2'' ''m9'' 4 8 = Inr (Failure ''Not your turn.'', demoGame) \<and>
   endTurn zeros demoGame ''P2'' = Some (Failure ''Not your turn.'', demoGame)"
proof -
  have other: "at_index (playerOrder demoGame) (currentPlayerIndex demoGame) \<noteq> Id ''P2''"
    by (simp add: demoGame_eq at_index_def)
  show ?thesis
    using other
      not_your_turn_rejected [OF other, of "''m9''" "''ghost''" 4 9 "''m9''" 4 8 zeros]
    by simp
qed

subsection \<open>Placement on the corner\<close>

text \<open>
  C7, as the code has it. The corner cell \<open>(0, 0)\<close> satisfies the edge predicate of
  two edges, \<open>top\<close> (\<open>y = 0\<close>) and \<open>left\<close> (\<open>x = 0\<close>), and of no other edge. Placement
  on \<open>(0, 0)\<close> is legal exactly for a player of the session whose edge is \<open>top\<close> or
  \<open>left\<close>, and only when the cell is empty.
\<close>

theorem corner_placement:
  "onEdge e 0 0 = (e = ''top'' \<or> e = ''left'') \<and>
   isValidPlacement g p 0 0
     = ((\<exists>pl. players g p = Some pl \<and> (edge pl = ''top'' \<or> edge pl = ''left''))
        \<and> board g 0 0 = None)"
  by (auto simp add: onEdge_def isValidPlacement_def split: option.splits)

text \<open>
  C7 as stated, with exactly one edge predicate claiming the corner, fails: in the
  three-player session \<open>P1\<close> holds the top edge and \<open>P3\<close> the left edge, both predicates
  hold at \<open>(0, 0)\<close>, and each of the two players may place there.
\<close>

theorem corner_claimed_by_two_edges:
  "onEdge ''top'' 0 0 \<and> onEdge ''left'' 0 0 \<and>
   map_option edge (players trioGame ''P1'') = Some ''top'' \<and>
   map_option edge (players trioGame ''P3'') = Some ''left'' \<and>
   isValidPlacement trioGame ''P1'' 0 0 \<and> isValidPlacement trioGame ''P3'' 0 0"
  by (simp add: onEdge_def isValidPlacement_def trioGame_eq)

subsection \<open>Movement legality\<close>

text \<open>
  What \<open>isValidMove\<close> computes: the destination is on the board and differs from the
  origin; a move that changes both coordinates changes neither by more than 2 (a move
  along one axis has no limit); and no square of the path, the destination included,
  holds a monster of another player. A monster of the mover never stops the walk, on
  the way or at the destination.
\<close>

lemma squarePasses_iff:
  assumes "1 \<le> j" and "j \<le> max \<bar>newX - m_x monster\<bar> \<bar>newY - m_y monster\<bar>"
  shows "squarePasses g p (m_x monster) (m_y monster) newX newY
           \<bar>newX - m_x monster\<bar> \<bar>newY - m_y monster\<bar> j
         = (\<not> blocksPath g p (pathX monster newX j) (pathY monster newY j))"
proof -
  let ?dx = "\<bar>newX - m_x monster\<bar>" and ?dy = "\<bar>newY - m_y monster\<bar>"
  consider (diag) "?dx > 0" "?dy > 0" | (horiz) "?dx > 0" "?dy = 0" | (vert) "?dx = 0" "?dy > 0"
    using assms by linarith
  then show ?thesis
  proof cases
    case diag
    then show ?thesis
      by (auto simp add: squarePasses_def blocksPath_def pathX_def pathY_def Let_def
          split: option.splits)
  next
    case horiz
    then have "min j ?dx = j" "min j ?dy = 0"
      using assms by simp_all
    then show ?thesis
      using horiz
      by (auto simp add: squarePasses_def blocksPath_def pathX_def pathY_def Let_def
          split: option.splits)
  next
    case vert
    then have "min j ?dx = 0" "min j ?dy = j"
      using assms by simp_all
    then show ?thesis
      using vert
      by (auto simp add: squarePasses_def blocksPath_def pathX_def pathY_def Let_def
          split: option.splits)
  qed
qed

lemma pathLoop_iff:
  "pathLoop g p cx cy newX newY dx dy i
   = (\<forall>j. i \<le> j \<and> j \<le> max dx dy \<longrightarrow> squarePasses g p cx cy newX newY dx dy j)"
proof (induction g p cx cy newX newY dx dy i rule: pathLoop.induct)
  case (1 g p cx cy newX newY dx dy i)
  show ?case
  proof (cases "i \<le> max dx dy")
    case False
    then show ?thesis
      by (subst pathLoop.simps) auto
  next
    case True
    show ?thesis
    proof (cases "squarePasses g p cx cy newX newY dx dy i")
      case False
      then show ?thesis
        using True by (subst pathLoop.simps) auto
    next
      case pass: True
      have "pathLoop g p cx cy newX newY dx dy i = pathLoop g p cx cy newX newY dx dy (i + 1)"
        using True pass by (subst pathLoop.simps) simp
      also have "\<dots> = (\<forall>j. i + 1 \<le> j \<and> j \<le> max dx dy
                          \<longrightarrow> squarePasses g p cx cy newX newY dx dy j)"
        using 1 True pass by simp
      also have "\<dots> = (\<forall>j. i \<le> j \<and> j \<le> max dx dy
                          \<longrightarrow> squarePasses g p cx cy newX newY dx dy j)"
      proof
        assume rest: "\<forall>j. i + 1 \<le> j \<and> j \<le> max dx dy \<longrightarrow> squarePasses g p cx cy newX newY dx dy j"
        show "\<forall>j. i \<le> j \<and> j \<le> max dx dy \<longrightarrow> squarePasses g p cx cy newX newY dx dy j"
        proof (intro allI impI)
          fix j assume "i \<le> j \<and> j \<le> max dx dy"
          then have "j = i \<or> (i + 1 \<le> j \<and> j \<le> max dx dy)"
            by linarith
          then show "squarePasses g p cx cy newX newY dx dy j"
            using pass rest by blast
        qed
      next
        assume "\<forall>j. i \<le> j \<and> j \<le> max dx dy \<longrightarrow> squarePasses g p cx cy newX newY dx dy j"
        then show "\<forall>j. i + 1 \<le> j \<and> j \<le> max dx dy \<longrightarrow> squarePasses g p cx cy newX newY dx dy j"
          by auto
      qed
      finally show ?thesis .
    qed
  qed
qed

lemma isValidMove_iff:
  "isValidMove g p monster newX newY
   = (0 \<le> newX \<and> newX \<le> 9 \<and> 0 \<le> newY \<and> newY \<le> 9
      \<and> (newX \<noteq> m_x monster \<or> newY \<noteq> m_y monster)
      \<and> (newX \<noteq> m_x monster \<and> newY \<noteq> m_y monster
           \<longrightarrow> \<bar>newX - m_x monster\<bar> \<le> 2 \<and> \<bar>newY - m_y monster\<bar> \<le> 2)
      \<and> (\<forall>j. 1 \<le> j \<and> j \<le> max \<bar>newX - m_x monster\<bar> \<bar>newY - m_y monster\<bar>
             \<longrightarrow> \<not> blocksPath g p (pathX monster newX j) (pathY monster newY j)))"
proof -
  have path: "pathLoop g p (m_x monster) (m_y monster) newX newY
                \<bar>newX - m_x monster\<bar> \<bar>newY - m_y monster\<bar> 1
     = (\<forall>j. 1 \<le> j \<and> j \<le> max \<bar>newX - m_x monster\<bar> \<bar>newY - m_y monster\<bar>
             \<longrightarrow> \<not> blocksPath g p (pathX monster newX j) (pathY monster newY j))"
    unfolding pathLoop_iff using squarePasses_iff [of _ newX monster newY g p] by blast
  show ?thesis
    unfolding isValidMove_def Let_def path by auto
qed

lemma destination_square:
  "pathX monster newX (max \<bar>newX - m_x monster\<bar> \<bar>newY - m_y monster\<bar>) = newX"
  "pathY monster newY (max \<bar>newX - m_x monster\<bar> \<bar>newY - m_y monster\<bar>) = newY"
  by (auto simp add: pathX_def pathY_def sgn_if)

lemma opponent_destination_rejected:
  assumes "board g newY newX = Some m" and "m_owner m \<noteq> p"
  shows "\<not> isValidMove g p monster newX newY"
proof
  assume ok: "isValidMove g p monster newX newY"
  let ?steps = "max \<bar>newX - m_x monster\<bar> \<bar>newY - m_y monster\<bar>"
  have bounds: "0 \<le> newX \<and> newX \<le> 9 \<and> 0 \<le> newY \<and> newY \<le> 9"
    and moved: "newX \<noteq> m_x monster \<or> newY \<noteq> m_y monster"
    and path: "\<forall>j. 1 \<le> j \<and> j \<le> ?steps
             \<longrightarrow> \<not> blocksPath g p (pathX monster newX j) (pathY monster newY j)"
    using ok unfolding isValidMove_iff by simp_all
  have "1 \<le> ?steps"
    using moved by linarith
  then have "\<not> blocksPath g p (pathX monster newX ?steps) (pathY monster newY ?steps)"
    using path by simp
  then show False
    using assms bounds by (simp add: destination_square blocksPath_def)
qed

subsection \<open>Movement legality at the destination\<close>

lemma duel_reached:
  "play zeros demoGame (duelIntents ''vampire'' ''werewolf'')
     = Some (duelGame ''vampire'' ''werewolf'')"
  by (simp add: duelIntents_def duelGame_def attacker_def defender_def demoGame_eq
      place_defs move_defs turn_defs fun_eq_iff)

lemma stack_reached:
  "play zeros demoGame (stackIntents ''vampire'' ''ghost'')
     = Some (stackGame ''vampire'' ''ghost'')"
  by (simp add: stackIntents_def stackGame_def attacker_def blocker_def demoGame_eq
      place_defs move_defs turn_defs fun_eq_iff)

text \<open>
  C1 states that \<open>isValidMove\<close> accepts a destination that holds another player's
  monster (combat follows) and rejects a destination that holds a monster of the mover.
  The method does the opposite. In the duel, \<open>P1\<close>'s vampire on \<open>(5, 0)\<close> may not move
  straight to \<open>(5, 2)\<close>, where \<open>P2\<close>'s werewolf stands, although \<open>(5, 1)\<close> is empty:
  \<open>isValidMove\<close> returns false and \<open>moveMonster\<close> rejects the move without change. In
  the stack, where \<open>(5, 2)\<close> holds \<open>P1\<close>'s own ghost, the same move is accepted.
\<close>

theorem isValidMove_destination:
  "isValidMove (duelGame ''vampire'' ''werewolf'') ''P1'' (attacker ''vampire'') 5 2 = False \<and>
   moveMonster (duelGame ''vampire'' ''werewolf'') ''P1'' ''a1'' 5 2
     = Inr (Failure ''Invalid move (distance, obstacle, or out of bounds).'',
            duelGame ''vampire'' ''werewolf'') \<and>
   isValidMove (stackGame ''vampire'' ''ghost'') ''P1'' (attacker ''vampire'') 5 2 = True"
  by (simp add: duelGame_def stackGame_def attacker_def defender_def blocker_def move_defs)

subsection \<open>Combat\<close>

text \<open>
  The dominance table: of a vampire and a werewolf the werewolf is removed, of a
  werewolf and a ghost the ghost, of a ghost and a vampire the vampire, whichever of
  the two arrives; two monsters of one type give no monster to remove.
\<close>

lemma removedMonster_table:
  assumes "m_type v = ''vampire''" and "m_type w = ''werewolf''" and "m_type h = ''ghost''"
  shows "removedMonster v w = Some w" and "removedMonster w v = Some w"
    and "removedMonster w h = Some h" and "removedMonster h w = Some h"
    and "removedMonster h v = Some v" and "removedMonster v h = Some v"
  using assms by (simp_all add: removedMonster_def)

lemma removedMonster_same_type:
  "m_type a = m_type b \<Longrightarrow> removedMonster a b = None"
  by (auto simp add: removedMonster_def Let_def)

text \<open>
  Two monsters of one type and one owner are both removed: \<open>P1\<close>'s vampire moved onto
  \<open>P1\<close>'s own vampire empties the roster and counts two losses.
\<close>

lemma same_type_one_owner:
  "map_option (\<lambda>g. (rosterOf g ''P1'', lostOf g ''P1'', board g 2 5))
     (applyIntent zeros (stackGame ''vampire'' ''vampire'') (Move ''P1'' ''a1'' 5 2))
     = Some (Some [], Some 2, None)"
  by (simp add: stackGame_def duelGame_def attacker_def blocker_def move_defs
      rosterOf_def lostOf_def)

subsection \<open>One move per monster and turn\<close>

text \<open>
  C4 states that \<open>moveMonster\<close> rejects a move of the monster its player placed this
  turn. No statement stores the placed monster's id, so the test
  \<open>placedMonsterId === monsterId\<close> never holds: \<open>P1\<close> places a vampire on \<open>(3, 0)\<close>
  and moves it to \<open>(3, 1)\<close> in the same turn, and both calls succeed.
\<close>

theorem placed_monster_moves_same_turn:
  "placeMonster demoGame ''m1'' ''P1'' ''vampire'' 3 0
     = Inr (Success ''Monster vampire placed at (3, 0).'', placedGame) \<and>
   moveMonster placedGame ''P1'' ''m1'' 3 1
     = Inr (Success ''Monster moved to (3, 1).'', movedGame)"
  using place_vampire
  by (simp add: movedGame_def placedGame_def vampireAt30_def demoGame_eq move_defs)

text \<open>
  The other half of C4 holds: a monster whose id is in the moved set of the current
  player is not moved again.
\<close>

lemma second_move_rejected:
  assumes "getCurrentPlayer g = Id p"
    and "players g p = Some pl"
    and "findIndex (\<lambda>m. m_id m = monsterId) (monsters pl) = Some i"
    and "hasMoved g p monsterId"
  shows "\<exists>msg. moveMonster g p monsterId newX newY = Inr (Failure msg, g)"
  using assms by (simp add: moveMonster_def Let_def)

lemma second_move_rejected_example:
  "moveMonster movedGame ''P1'' ''m1'' 3 2
     = Inr (Failure ''This monster has already moved this turn.'', movedGame)"
  by (simp add: movedGame_def placedGame_def vampireAt30_def demoGame_eq move_defs)

subsection \<open>Elimination and the winner\<close>

lemma setCell_fields [simp]:
  "players (setCell g x y c) = players g"
  "playerOrder (setCell g x y c) = playerOrder g"
  "status (setCell g x y c) = status g"
  "winner (setCell g x y c) = winner g"
  "turnActions (setCell g x y c) = turnActions g"
  "g_round (setCell g x y c) = g_round g"
  "currentPlayerIndex (setCell g x y c) = currentPlayerIndex g"
  by (simp_all add: setCell_def)

lemma removeMonster_fields [simp]:
  "playerOrder (removeMonster g m ownerId) = playerOrder g"
  "status (removeMonster g m ownerId) = status g"
  "winner (removeMonster g m ownerId) = winner g"
  "turnActions (removeMonster g m ownerId) = turnActions g"
  "g_round (removeMonster g m ownerId) = g_round g"
  "currentPlayerIndex (removeMonster g m ownerId) = currentPlayerIndex g"
  by (simp_all add: removeMonster_def Let_def split: option.splits)

lemma handleConflict_fields [simp]:
  "playerOrder (handleConflict g x y p e) = playerOrder g"
  "status (handleConflict g x y p e) = status g"
  "winner (handleConflict g x y p e) = winner g"
  "turnActions (handleConflict g x y p e) = turnActions g"
  "g_round (handleConflict g x y p e) = g_round g"
  "currentPlayerIndex (handleConflict g x y p e) = currentPlayerIndex g"
  by (simp_all add: handleConflict_def split: option.splits)

lemma declareWinner_fields [simp]:
  "players (declareWinner g) = players g"
  "playerOrder (declareWinner g) = playerOrder g"
  "board (declareWinner g) = board g"
  "turnActions (declareWinner g) = turnActions g"
  "g_round (declareWinner g) = g_round g"
  "currentPlayerIndex (declareWinner g) = currentPlayerIndex g"
  by (simp_all add: declareWinner_def endGame_def)

lemma removeMonster_players:
  assumes "players g ownerId = Some pl"
    and "findIndex (\<lambda>m. m_id m = monsterId) (monsters pl) = Some i"
  shows "players (removeMonster g monsterId ownerId)
         = (players g)(ownerId \<mapsto> pl\<lparr>monsters := splice1 i (monsters pl),
                                      monstersLost := monstersLost pl + 1\<rparr>)"
  using assms by (simp add: removeMonster_def Let_def)

lemma activePlayers_cong:
  "players g' = players g \<Longrightarrow> playerOrder g' = playerOrder g
   \<Longrightarrow> activePlayers g' = activePlayers g"
  by (simp add: activePlayers_def isPlayerEliminated_def)

lemma checkForWinner_single:
  assumes "activePlayers g = [w]" and "length (playerOrder g) > 1"
  shows "checkForWinner g = Id w"
  using assms by (simp add: checkForWinner_def at_index_def)

lemma declareWinner_single:
  assumes "activePlayers g = [w]" and "length (playerOrder g) > 1" and "w \<noteq> []"
    and "status g \<noteq> Finished"
  shows "status (declareWinner g) = Finished \<and> winner (declareWinner g) = Some w"
  using assms by (simp add: declareWinner_def checkForWinner_single endGame_def)

text \<open>A successful \<open>moveMonster\<close> ends with the winner check on an active session.\<close>

lemma moveMonster_success:
  assumes "moveMonster g p monsterId newX newY = Inr (Success msg, g')"
  shows "\<exists>g5. g' = declareWinner g5 \<and> status g5 = Active \<and> playerOrder g5 = playerOrder g"
proof -
  have cur: "getCurrentPlayer g = Id p"
    using assms by (auto simp add: moveMonster_def split: if_splits)
  then have act: "status g = Active"
    by (auto simp add: getCurrentPlayer_def split: if_splits)
  show ?thesis
    using assms cur act
    by (auto simp add: moveMonster_def Let_def split: if_splits option.splits)
qed

subsection \<open>Sorting with a comparator\<close>

lemma agrees_neg: "agrees cmp f \<Longrightarrow> fst (cmp k a b) < 0 \<Longrightarrow> f a \<le> f b"
  by (simp add: agrees_def)

lemma agrees_nonneg: "agrees cmp f \<Longrightarrow> \<not> fst (cmp k a b) < 0 \<Longrightarrow> f b \<le> f a"
  by (simp add: agrees_def not_less)

lemma runLoop_length: "fst (runLoop cmp k d prev rest) \<le> length rest"
  by (induction rest arbitrary: k prev) auto

lemma runLoop_ascending:
  assumes "agrees cmp f"
  shows "sorted (map f (prev # take (fst (runLoop cmp k False prev rest)) rest))"
proof (induction rest arbitrary: k prev)
  case Nil
  then show ?case by simp
next
  case (Cons cur rest)
  show ?case
  proof (cases "fst (cmp k cur prev) < 0")
    case True
    then show ?thesis by simp
  next
    case False
    then have "f prev \<le> f cur"
      by (rule agrees_nonneg [OF assms])
    then show ?thesis
      using False Cons [of cur "snd (cmp k cur prev)"] by (auto intro: order_trans)
  qed
qed

lemma runLoop_descending:
  assumes "agrees cmp f"
  shows "sorted (map f (rev (prev # take (fst (runLoop cmp k True prev rest)) rest)))"
proof (induction rest arbitrary: k prev)
  case Nil
  then show ?case by simp
next
  case (Cons cur rest)
  show ?case
  proof (cases "fst (cmp k cur prev) < 0")
    case False
    then show ?thesis by simp
  next
    case True
    then have le: "f cur \<le> f prev"
      by (rule agrees_neg [OF assms])
    let ?n = "fst (runLoop cmp (snd (cmp k cur prev)) True cur rest)"
    have "sorted (map f (rev (cur # take ?n rest)))"
      using Cons by simp
    then have "sorted (map f (rev (take ?n rest)) @ [f cur])"
      by simp
    then have "sorted ((map f (rev (take ?n rest)) @ [f cur]) @ [f prev])"
      using le by (subst sorted_append) (auto simp add: sorted_append intro: order_trans)
    then show ?thesis
      using True by simp
  qed
qed

lemma countAndMakeRun_length:
  "snd (fst (countAndMakeRun cmp k xs)) \<le> length xs"
  using runLoop_length [of cmp _ _ _ "tl (tl xs)"]
  by (cases "(cmp, k, xs)" rule: countAndMakeRun.cases) (simp_all add: Let_def)

lemma countAndMakeRun_mset:
  "mset (fst (fst (countAndMakeRun cmp k xs))) = mset xs"
proof (cases "(cmp, k, xs)" rule: countAndMakeRun.cases)
  case (1 cmp' k' hi lo rest)
  have "mset (rev (take n ys) @ drop n ys) = mset ys" for n and ys :: "'a list"
    by (metis append_take_drop_id mset_append mset_rev)
  then show ?thesis
    using 1 by (simp add: Let_def del: take_Suc_Cons drop_Suc_Cons rev.simps)
qed simp_all

lemma countAndMakeRun_sorted:
  assumes "agrees cmp f"
  shows "sorted (map f (take (snd (fst (countAndMakeRun cmp k xs)))
                          (fst (fst (countAndMakeRun cmp k xs)))))"
proof (cases "(cmp, k, xs)" rule: countAndMakeRun.cases)
  case (1 cmp' k' hi lo rest)
  show ?thesis
  proof (cases "fst (cmp k lo hi) < 0")
    case True
    let ?n = "fst (runLoop cmp (snd (cmp k lo hi)) True lo rest)"
    have le: "f lo \<le> f hi"
      using True by (rule agrees_neg [OF assms])
    have "sorted (map f (rev (lo # take ?n rest)))"
      by (rule runLoop_descending [OF assms])
    then have "sorted ((map f (rev (take ?n rest)) @ [f lo]) @ [f hi])"
      using le by (subst sorted_append) (auto simp add: sorted_append intro: order_trans)
    then have srt: "sorted (map f (rev (hi # lo # take ?n rest)))"
      by simp
    have len: "length (rev (hi # lo # take ?n rest)) = ?n + 2"
      using runLoop_length [of cmp "snd (cmp k lo hi)" True lo rest] by simp
    have run: "fst (countAndMakeRun cmp k xs)
                 = (rev (hi # lo # take ?n rest) @ drop ?n rest, ?n + 2)"
      using 1 True by (simp add: Let_def)
    have "take (?n + 2) (rev (hi # lo # take ?n rest) @ drop ?n rest)
            = rev (hi # lo # take ?n rest)"
      using len by (metis append_eq_conv_conj)
    then show ?thesis
      using srt by (simp only: run fst_conv snd_conv)
  next
    case False
    let ?n = "fst (runLoop cmp (snd (cmp k lo hi)) False lo rest)"
    have le: "f hi \<le> f lo"
      using False by (rule agrees_nonneg [OF assms])
    have "sorted (map f (lo # take ?n rest))"
      by (rule runLoop_ascending [OF assms])
    then show ?thesis
      using 1 False le by (auto simp add: Let_def intro: order_trans)
  qed
qed simp_all

lemma findInsertionPoint_bounds:
  "agrees cmp f \<Longrightarrow> sorted (map f ws) \<Longrightarrow> left \<le> right \<Longrightarrow> right \<le> length ws \<Longrightarrow>
   (\<forall>i<left. f (ws ! i) \<le> f pivot) \<Longrightarrow>
   (\<forall>i. right \<le> i \<and> i < length ws \<longrightarrow> f pivot \<le> f (ws ! i)) \<Longrightarrow>
   fst (findInsertionPoint cmp k pivot ws left right) \<le> length ws \<and>
   (\<forall>i<fst (findInsertionPoint cmp k pivot ws left right). f (ws ! i) \<le> f pivot) \<and>
   (\<forall>i. fst (findInsertionPoint cmp k pivot ws left right) \<le> i \<and> i < length ws
        \<longrightarrow> f pivot \<le> f (ws ! i))"
proof (induction cmp k pivot ws left right rule: findInsertionPoint.induct)
  case (1 cmp k pivot ws left right)
  note agr = "1.prems"(1) and srt = "1.prems"(2) and lr = "1.prems"(3) and rl = "1.prems"(4)
    and below = "1.prems"(5) and above = "1.prems"(6)
  have mono: "f (ws ! i) \<le> f (ws ! j)" if "i \<le> j" and "j < length ws" for i j
    using srt that by (simp add: sorted_iff_nth_mono)
  show ?case
  proof (cases "left < right")
    case False
    then have "findInsertionPoint cmp k pivot ws left right = (left, k)"
      by (subst findInsertionPoint.simps) simp
    then show ?thesis
      using False lr rl below above by simp
  next
    case True
    let ?mid = "left + (right - left) div 2"
    have mid: "left \<le> ?mid" "?mid < right" "?mid < length ws"
      using True rl by auto
    show ?thesis
    proof (cases "fst (cmp k pivot (ws ! ?mid)) < 0")
      case neg: True
      have eq: "findInsertionPoint cmp k pivot ws left right
                  = findInsertionPoint cmp (snd (cmp k pivot (ws ! ?mid))) pivot ws left ?mid"
        using True neg by (subst findInsertionPoint.simps) simp
      have le: "f pivot \<le> f (ws ! ?mid)"
        using neg by (rule agrees_neg [OF agr])
      have hi: "\<forall>i. ?mid \<le> i \<and> i < length ws \<longrightarrow> f pivot \<le> f (ws ! i)"
        using le mono by (meson order_trans)
      show ?thesis
        unfolding eq
        using "1.IH"(1) [OF True neg agr srt mid(1) _ below hi] mid by simp
    next
      case nonneg: False
      have eq: "findInsertionPoint cmp k pivot ws left right
                  = findInsertionPoint cmp (snd (cmp k pivot (ws ! ?mid))) pivot ws (?mid + 1) right"
        using True nonneg by (subst findInsertionPoint.simps) simp
      have le: "f (ws ! ?mid) \<le> f pivot"
        using nonneg by (rule agrees_nonneg [OF agr])
      have lo: "\<forall>i<?mid + 1. f (ws ! i) \<le> f pivot"
      proof (intro allI impI)
        fix i assume "i < ?mid + 1"
        then have "i \<le> ?mid" by simp
        then have "f (ws ! i) \<le> f (ws ! ?mid)" using mono mid(3) by blast
        then show "f (ws ! i) \<le> f pivot" using le by (rule order_trans)
      qed
      show ?thesis
        unfolding eq
        using "1.IH"(2) [OF True nonneg agr srt _ rl lo above] mid by simp
    qed
  qed
qed

lemma insert_at_sorted:
  assumes "sorted (map f ws)" and "l \<le> length ws"
    and "\<forall>i<l. f (ws ! i) \<le> f pivot"
    and "\<forall>i. l \<le> i \<and> i < length ws \<longrightarrow> f pivot \<le> f (ws ! i)"
  shows "sorted (map f (take l ws @ pivot # drop l ws))"
proof -
  have a: "\<forall>x\<in>set (take l ws). f x \<le> f pivot"
    using assms(2,3) by (auto simp add: in_set_conv_nth)
  have b: "\<forall>x\<in>set (drop l ws). f pivot \<le> f x"
    using assms(2,4) by (auto simp add: in_set_conv_nth)
  have c: "sorted (map f (take l ws))" "sorted (map f (drop l ws))"
    using assms(1) by (simp_all add: sorted_wrt_take sorted_wrt_drop sorted_map)
  have d: "\<forall>x\<in>set (take l ws). \<forall>y\<in>set (drop l ws). f x \<le> f y"
    using a b by (meson order_trans)
  show ?thesis
    using a b c d by (simp add: sorted_append)
qed

lemma mset_insert_at: "mset (take l ws @ pivot # drop l ws) = add_mset pivot (mset ws)"
  by (metis append_take_drop_id mset.simps(2) mset_append union_mset_add_mset_right)

lemma mset_take_drop: "mset (take n ys) + mset (drop n ys) = mset ys"
  by (metis append_take_drop_id mset_append)

lemma mset_binaryInsertionSort:
  "mset (fst (binaryInsertionSort cmp k done todo)) = mset done + mset todo"
  by (induction todo arbitrary: k "done") (simp_all add: mset_take_drop)

lemma sorted_binaryInsertionSort:
  assumes "agrees cmp f"
  shows "sorted (map f done) \<Longrightarrow> sorted (map f (fst (binaryInsertionSort cmp k done todo)))"
proof (induction todo arbitrary: k "done")
  case Nil
  then show ?case by simp
next
  case (Cons pivot rest)
  let ?l = "fst (findInsertionPoint cmp k pivot done 0 (length done))"
  have "?l \<le> length done \<and> (\<forall>i<?l. f (done ! i) \<le> f pivot) \<and>
        (\<forall>i. ?l \<le> i \<and> i < length done \<longrightarrow> f pivot \<le> f (done ! i))"
    by (rule findInsertionPoint_bounds [OF assms Cons.prems]) auto
  then have "sorted (map f (take ?l done @ pivot # drop ?l done))"
    using insert_at_sorted [OF Cons.prems] by blast
  then show ?case
    using Cons.IH by simp
qed

lemma mset_jsSort: "mset (jsSort cmp xs) = mset xs"
proof -
  have "mset (take n ys) + mset (drop n ys) = mset ys" for n and ys :: "'a list"
    by (metis append_take_drop_id mset_append)
  then show ?thesis
    by (simp add: jsSort_def Let_def mset_binaryInsertionSort countAndMakeRun_mset)
qed

lemma sorted_jsSort:
  assumes "agrees cmp f"
  shows "sorted (map f (jsSort cmp xs))"
proof (cases "length xs < 2")
  case True
  then have "xs = [] \<or> (\<exists>x. xs = [x])"
    by (cases xs) (auto simp add: length_Suc_conv)
  then show ?thesis
    by (auto simp add: jsSort_def)
next
  case False
  then show ?thesis
    using sorted_binaryInsertionSort [OF assms countAndMakeRun_sorted [OF assms]]
    by (simp add: jsSort_def Let_def)
qed

lemma agrees_byFewestMonsters: "agrees (byFewestMonsters g rnd) (monsterCount g)"
  by (auto simp add: agrees_def byFewestMonsters_def)



subsection \<open>What the skip loop keeps\<close>

lemma advance_fields [simp]:
  "players (advance g) = players g"
  "playerOrder (advance g) = playerOrder g"
  "board (advance g) = board g"
  "g_round (advance g) = g_round g"
  "turnActions (advance g) = turnActions g"
  "status (advance g) = status g"
  "winner (advance g) = winner g"
  by (simp_all add: advance_def)

lemma endGame_fields [simp]:
  "players (endGame g w) = players g"
  "playerOrder (endGame g w) = playerOrder g"
  "board (endGame g w) = board g"
  "g_round (endGame g w) = g_round g"
  "turnActions (endGame g w) = turnActions g"
  "currentPlayerIndex (endGame g w) = currentPlayerIndex g"
  by (simp_all add: endGame_def)

lemma endGame_status: "status g = Active \<Longrightarrow> status (endGame g w) = Finished"
  by (simp add: endGame_def)

lemma advance_in_range:
  "currentPlayerIndex g < length (playerOrder g)
   \<Longrightarrow> currentPlayerIndex (advance g) < length (playerOrder g)"
  by (cases "playerOrder g") (simp_all add: advance_def)

lemma skipKeeps_advance: "skipKeeps (advance g) y \<Longrightarrow> skipKeeps g y"
  using advance_in_range [of g] by (auto simp add: skipKeeps_def split: if_splits)

lemma skip_fields:
  assumes "skipEliminated g = Some y"
  shows "skipKeeps g y"
proof (rule skipEliminated.raw_induct [OF _ assms])
  fix skip :: "game \<Rightarrow> (bool \<times> game) option" and g y
  assume IH: "\<And>x z. skip x = Some z \<Longrightarrow> skipKeeps x z"
  assume body: "(if isPlayerEliminated g (getCurrentPlayer g) \<and> status g = Active
      then if currentPlayerIndex (advance g) = 0
           then if truthy (checkForWinner (advance g))
                then Some (True, endGame (advance g)
                        (Some (key (checkForWinner (advance g)))))
                else if activePlayers (advance g) = []
                     then Some (True, endGame (advance g) None)
                     else skip (advance g)
           else skip (advance g)
      else Some (False, g)) = Some y"
  show "skipKeeps g y"
  proof (cases "isPlayerEliminated g (getCurrentPlayer g) \<and> status g = Active")
    case False
    with body have "Some (False, g) = Some y"
      by (simp only: if_False)
    then have "y = (False, g)"
      by simp
    then show ?thesis
      using False by (simp add: skipKeeps_def)
  next
    case True
    then have act: "status g = Active"
      by simp
    show ?thesis
    proof (cases "currentPlayerIndex (advance g) = 0")
      case False
      then have "skip (advance g) = Some y"
        using body True by simp
      then show ?thesis
        using IH skipKeeps_advance by blast
    next
      case wrap: True
      show ?thesis
      proof (cases "truthy (checkForWinner (advance g))")
        case True
        then have "y = (True, endGame (advance g) (Some (key (checkForWinner (advance g)))))"
          using body \<open>isPlayerEliminated g (getCurrentPlayer g) \<and> status g = Active\<close> wrap
          by simp
        then show ?thesis
          using act advance_in_range [of g] by (simp add: skipKeeps_def endGame_status)
      next
        case noWinner: False
        show ?thesis
        proof (cases "activePlayers (advance g) = []")
          case True
          then have "y = (True, endGame (advance g) None)"
            using body \<open>isPlayerEliminated g (getCurrentPlayer g) \<and> status g = Active\<close>
              wrap noWinner
            by simp
          then show ?thesis
            using act advance_in_range [of g] by (simp add: skipKeeps_def endGame_status)
        next
          case False
          then have "skip (advance g) = Some y"
            using body \<open>isPlayerEliminated g (getCurrentPlayer g) \<and> status g = Active\<close>
              wrap noWinner
            by simp
          then show ?thesis
            using IH skipKeeps_advance by blast
        qed
      qed
    qed
  qed
qed

subsection \<open>The skip loop returns\<close>

lemma skipEliminated_inner:
  "isPlayerEliminated g (getCurrentPlayer g) \<and> status g = Active
   \<Longrightarrow> currentPlayerIndex (advance g) \<noteq> 0
   \<Longrightarrow> skipEliminated g = skipEliminated (advance g)"
  by (subst skipEliminated.simps) simp

lemma skipEliminated_wrap:
  "isPlayerEliminated g (getCurrentPlayer g) \<and> status g = Active
   \<Longrightarrow> currentPlayerIndex (advance g) = 0
   \<Longrightarrow> skipEliminated g =
       (if truthy (checkForWinner (advance g))
        then Some (True, endGame (advance g) (Some (key (checkForWinner (advance g)))))
        else if activePlayers (advance g) = []
        then Some (True, endGame (advance g) None)
        else skipEliminated (advance g))"
  by (subst skipEliminated.simps) simp

lemma isPlayerEliminated_index [simp]:
  "isPlayerEliminated (g\<lparr>currentPlayerIndex := k\<rparr>) v = isPlayerEliminated g v"
  by (simp add: isPlayerEliminated_def)

lemma isPlayerEliminated_advance [simp]:
  "isPlayerEliminated (advance g) v = isPlayerEliminated g v"
  by (simp add: isPlayerEliminated_def)

lemma activePlayers_advance [simp]: "activePlayers (advance g) = activePlayers g"
  by (simp add: activePlayers_def)

lemma activePlayers_index [simp]:
  "activePlayers (g\<lparr>currentPlayerIndex := k\<rparr>) = activePlayers g"
  by (simp add: activePlayers_def)

lemma getCurrentPlayer_in_range:
  "status g = Active \<Longrightarrow> currentPlayerIndex g < length (playerOrder g)
   \<Longrightarrow> getCurrentPlayer g = Id (playerOrder g ! currentPlayerIndex g)"
  by (auto simp add: getCurrentPlayer_def at_index_def)

lemma advance_index:
  "currentPlayerIndex (advance g) = (currentPlayerIndex g + 1) mod length (playerOrder g)"
  by (simp add: advance_def)

lemma skip_reaches:
  assumes "currentPlayerIndex g \<le> j" and "j < length (playerOrder g)"
    and "\<not> isPlayerEliminated g (Id (playerOrder g ! j))"
  shows "\<exists>r. skipEliminated g = Some r"
  using assms
proof (induction "j - currentPlayerIndex g" arbitrary: g)
  case 0
  then have here: "currentPlayerIndex g = j"
    by simp
  have "\<not> (isPlayerEliminated g (getCurrentPlayer g) \<and> status g = Active)"
    using here 0(3,4) getCurrentPlayer_in_range [of g] by auto
  then show ?case
    using skipEliminated_stop by blast
next
  case (Suc n)
  show ?case
  proof (cases "isPlayerEliminated g (getCurrentPlayer g) \<and> status g = Active")
    case False
    then show ?thesis
      using skipEliminated_stop by blast
  next
    case True
    have next_index: "currentPlayerIndex (advance g) = currentPlayerIndex g + 1"
      using Suc(2,4) by (simp add: advance_index)
    then have "skipEliminated g = skipEliminated (advance g)"
      using True by (simp add: skipEliminated_inner)
    moreover have "\<exists>r. skipEliminated (advance g) = Some r"
      using Suc(1) [of "advance g"] Suc(2-5) next_index by simp
    ultimately show ?thesis
      by simp
  qed
qed

lemma advance_reset: "(advance g)\<lparr>currentPlayerIndex := 0\<rparr> = g\<lparr>currentPlayerIndex := 0\<rparr>"
  by (simp add: advance_def)

lemma skip_wraps:
  assumes "currentPlayerIndex g < length (playerOrder g)"
  shows "(\<exists>r. skipEliminated g = Some r)
       \<or> (skipEliminated g = skipEliminated (g\<lparr>currentPlayerIndex := 0\<rparr>)
          \<and> activePlayers g \<noteq> [])"
  using assms
proof (induction "length (playerOrder g) - currentPlayerIndex g" arbitrary: g)
  case 0
  then show ?case by simp
next
  case (Suc n)
  show ?case
  proof (cases "isPlayerEliminated g (getCurrentPlayer g) \<and> status g = Active")
    case False
    then show ?thesis
      using skipEliminated_stop by blast
  next
    case True
    show ?thesis
    proof (cases "currentPlayerIndex g + 1 < length (playerOrder g)")
      case inner: True
      then have next_index: "currentPlayerIndex (advance g) = currentPlayerIndex g + 1"
        by (simp add: advance_index)
      then have same: "skipEliminated g = skipEliminated (advance g)"
        using True by (simp add: skipEliminated_inner)
      have "(\<exists>r. skipEliminated (advance g) = Some r)
         \<or> (skipEliminated (advance g) = skipEliminated ((advance g)\<lparr>currentPlayerIndex := 0\<rparr>)
            \<and> activePlayers (advance g) \<noteq> [])"
        using Suc(1) [of "advance g"] Suc(2) inner next_index by simp
      then show ?thesis
        using same by (simp add: advance_reset)
    next
      case False
      then have last: "currentPlayerIndex g + 1 = length (playerOrder g)"
        using Suc(3) by simp
      then have wrap: "currentPlayerIndex (advance g) = 0"
        by (simp add: advance_index)
      have reset: "advance g = g\<lparr>currentPlayerIndex := 0\<rparr>"
        using last by (simp add: advance_def)
      show ?thesis
        using skipEliminated_wrap [OF True wrap] reset by (auto split: if_splits)
    qed
  qed
qed

lemma skip_terminates:
  assumes "currentPlayerIndex g < length (playerOrder g)"
  shows "\<exists>r. skipEliminated g = Some r"
proof -
  from skip_wraps [OF assms] show ?thesis
  proof
    assume "\<exists>r. skipEliminated g = Some r"
    then show ?thesis .
  next
    assume again: "skipEliminated g = skipEliminated (g\<lparr>currentPlayerIndex := 0\<rparr>)
          \<and> activePlayers g \<noteq> []"
    then obtain q where "q \<in> set (activePlayers g)"
      by (cases "activePlayers g") auto
    then have q: "q \<in> set (playerOrder g)" "\<not> isPlayerEliminated g (Id q)"
      by (simp_all add: activePlayers_def)
    then obtain j where j: "j < length (playerOrder g)" "playerOrder g ! j = q"
      by (auto simp add: in_set_conv_nth)
    have "\<exists>r. skipEliminated (g\<lparr>currentPlayerIndex := 0\<rparr>) = Some r"
      using skip_reaches [of "g\<lparr>currentPlayerIndex := 0\<rparr>" j] j q(2) by simp
    then show ?thesis
      using again by simp
  qed
qed

subsection \<open>End of turn at a round boundary\<close>

lemma monsterCount_cong: "players g' = players g \<Longrightarrow> monsterCount g' = monsterCount g"
  by (simp add: monsterCount_def fun_eq_iff)

lemma byFewestMonsters_cong:
  "players g' = players g \<Longrightarrow> byFewestMonsters g' = byFewestMonsters g"
  by (simp add: byFewestMonsters_def monsterCount_def fun_eq_iff)

lemma newRound_fields [simp]:
  "players (newRound rnd g) = players g"
  "board (newRound rnd g) = board g"
  "turnActions (newRound rnd g) = turnActions g"
  "status (newRound rnd g) = status g"
  "winner (newRound rnd g) = winner g"
  "g_round (newRound rnd g) = g_round g + 1"
  "currentPlayerIndex (newRound rnd g) = 0"
  "playerOrder (newRound rnd g) = jsSort (byFewestMonsters g rnd) (playerOrder g)"
  by (simp_all add: newRound_def)

lemma length_jsSort [simp]: "length (jsSort cmp xs) = length xs"
  using mset_jsSort [of cmp xs] by (metis size_mset)

lemma resetTurnActions_fields [simp]:
  "players (resetTurnActions g v) = players g"
  "board (resetTurnActions g v) = board g"
  "status (resetTurnActions g v) = status g"
  "winner (resetTurnActions g v) = winner g"
  "g_round (resetTurnActions g v) = g_round g"
  "currentPlayerIndex (resetTurnActions g v) = currentPlayerIndex g"
  "playerOrder (resetTurnActions g v) = playerOrder g"
  by (simp_all add: resetTurnActions_def)

lemma getCurrentPlayer_resetTurnActions [simp]:
  "getCurrentPlayer (resetTurnActions g v) = getCurrentPlayer g"
  by (simp add: getCurrentPlayer_def)

lemma isPlayerEliminated_cong:
  "players g' = players g \<Longrightarrow> isPlayerEliminated g' v = isPlayerEliminated g v"
  by (simp add: isPlayerEliminated_def)

lemma current_player_facts:
  assumes "getCurrentPlayer g = Id p"
  shows "status g = Active" and "currentPlayerIndex g < length (playerOrder g)"
  using assms by (auto simp add: getCurrentPlayer_def at_index_def split: if_splits)

lemma roundEnd_reached:
  "play zeros demoGame [Place ''a1'' ''P1'' ''vampire'' 5 0, EndTurn ''P1''] = Some roundEndGame"
  by (simp add: roundEndGame_def attacker_def demoGame_eq place_defs turn_defs fun_eq_iff)

lemma roundEnd_endTurn:
  "endTurn zeros roundEndGame ''P2'' = Some (SuccessState (getState newRoundGame), newRoundGame)"
  by (simp add: newRoundGame_def roundEndGame_def attacker_def demoGame_eq turn_defs
      getState_def playerView_def fun_eq_iff)

text \<open>\<open>endTurn\<close> returns on every session, for every caller and random source.\<close>

lemma endTurn_returns: "\<exists>res. endTurn rnd g p = Some res"
proof (cases "getCurrentPlayer g = Id p")
  case False
  then show ?thesis
    by (simp add: endTurn_def)
next
  case True
  let ?g2 = "if currentPlayerIndex (advance g) = 0 then newRound rnd (advance g)
             else advance g"
  have "currentPlayerIndex g < length (playerOrder g)"
    using current_player_facts [OF True] by simp
  then have "currentPlayerIndex ?g2 < length (playerOrder ?g2)"
    using advance_in_range [of g] by auto
  then obtain y where "skipEliminated ?g2 = Some y"
    using skip_terminates by blast
  then show ?thesis
    using True by (cases y) (simp add: endTurn_def Let_def)
qed

text \<open>
  On a tie the comparator returns the random value, so two tied players keep their
  order unless that value is negative.
\<close>

lemma tie_follows_random:
  assumes "monsterCount g a = monsterCount g b"
  shows "jsSort (byFewestMonsters g rnd) [a, b] = (if rnd 0 < 0 then [b, a] else [a, b])"
  using assms by (simp add: jsSort_def byFewestMonsters_def Let_def)

text \<open>
  What \<open>endTurn\<close> does at a round boundary. When the current player ends the turn
  and the index wraps to 0, \<open>endTurn\<close> returns; the round counter is one more than before; the new
  \<open>playerOrder\<close> is a permutation of the old one, ascending in the players' roster
  lengths (ties as the random comparator decides); rosters and board are untouched.
  If the skip loop has ended the game, no turn record is reset. Otherwise the session
  is active, the current player is not eliminated, and the turn record of that one
  player is fresh, while every other player's turn record is what it was before the
  call. (Player ids are connection ids; for the empty string \<open>resetTurnActions\<close> would
  take its argument as missing.)
\<close>

theorem endTurn_round_boundary:
  assumes cur: "getCurrentPlayer g = Id p"
    and wrap: "(currentPlayerIndex g + 1) mod length (playerOrder g) = 0"
  shows "\<exists>g'. endTurn rnd g p = Some (SuccessState (getState g'), g')
           \<and> g_round g' = g_round g + 1
           \<and> mset (playerOrder g') = mset (playerOrder g)
           \<and> sorted (map (monsterCount g') (playerOrder g'))
           \<and> players g' = players g \<and> board g' = board g
           \<and> (status g' = Active \<or> status g' = Finished)
           \<and> (status g' = Finished \<longrightarrow> turnActions g' = turnActions g)
           \<and> (status g' = Active \<longrightarrow>
                 (\<exists>q. getCurrentPlayer g' = Id q \<and> \<not> isPlayerEliminated g' (Id q)
                    \<and> (q \<noteq> [] \<longrightarrow> turnActions g' = (turnActions g)(q \<mapsto> freshTurnAction))))"
proof -
  let ?g2 = "newRound rnd (advance g)"
  have act: "status g = Active" and inr: "currentPlayerIndex g < length (playerOrder g)"
    using current_player_facts [OF cur] by simp_all
  have wrap': "currentPlayerIndex (advance g) = 0"
    using wrap by (simp add: advance_def)
  have order2: "playerOrder ?g2 = jsSort (byFewestMonsters g rnd) (playerOrder g)"
    by (simp add: byFewestMonsters_cong [of "advance g" g])
  have perm: "mset (playerOrder ?g2) = mset (playerOrder g)"
    unfolding order2 by (rule mset_jsSort)
  have srt: "sorted (map (monsterCount g) (playerOrder ?g2))"
    unfolding order2 by (rule sorted_jsSort [OF agrees_byFewestMonsters])
  have "currentPlayerIndex ?g2 < length (playerOrder ?g2)"
    using inr by auto
  then obtain y where y: "skipEliminated ?g2 = Some y"
    using skip_terminates by blast
  then have keeps: "skipKeeps ?g2 y"
    by (rule skip_fields)
  obtain b g3 where yb: "y = (b, g3)"
    by (cases y)
  have g3: "players g3 = players g" "playerOrder g3 = playerOrder ?g2" "board g3 = board g"
    "g_round g3 = g_round g + 1" "turnActions g3 = turnActions g"
    "currentPlayerIndex g3 < length (playerOrder g3)"
    using keeps yb inr by (auto simp add: skipKeeps_def)
  have cnt: "monsterCount g3 = monsterCount g"
    using g3(1) by (rule monsterCount_cong)
  show ?thesis
  proof (cases b)
    case True
    then have fin: "status g3 = Finished"
      using keeps yb by (simp add: skipKeeps_def)
    have res: "endTurn rnd g p = Some (SuccessState (getState g3), g3)"
      using cur wrap' y yb True by (simp add: endTurn_def Let_def)
    have "g_round g3 = g_round g + 1
           \<and> mset (playerOrder g3) = mset (playerOrder g)
           \<and> sorted (map (monsterCount g3) (playerOrder g3))
           \<and> players g3 = players g \<and> board g3 = board g
           \<and> (status g3 = Active \<or> status g3 = Finished)
           \<and> (status g3 = Finished \<longrightarrow> turnActions g3 = turnActions g)
           \<and> (status g3 = Active \<longrightarrow>
                 (\<exists>q. getCurrentPlayer g3 = Id q \<and> \<not> isPlayerEliminated g3 (Id q)
                    \<and> (q \<noteq> [] \<longrightarrow> turnActions g3 = (turnActions g)(q \<mapsto> freshTurnAction))))"
      using fin g3 perm srt cnt by simp
    with res have "endTurn rnd g p = Some (SuccessState (getState g3), g3)
           \<and> g_round g3 = g_round g + 1
           \<and> mset (playerOrder g3) = mset (playerOrder g)
           \<and> sorted (map (monsterCount g3) (playerOrder g3))
           \<and> players g3 = players g \<and> board g3 = board g
           \<and> (status g3 = Active \<or> status g3 = Finished)
           \<and> (status g3 = Finished \<longrightarrow> turnActions g3 = turnActions g)
           \<and> (status g3 = Active \<longrightarrow>
                 (\<exists>q. getCurrentPlayer g3 = Id q \<and> \<not> isPlayerEliminated g3 (Id q)
                    \<and> (q \<noteq> [] \<longrightarrow> turnActions g3 = (turnActions g)(q \<mapsto> freshTurnAction))))"
      by (rule conjI)
    then show ?thesis
      by (intro exI)
  next
    case False
    then have st: "status g3 = Active"
      and notElim: "\<not> isPlayerEliminated g3 (getCurrentPlayer g3)"
      using keeps yb act by (auto simp add: skipKeeps_def)
    let ?g4 = "resetTurnActions g3 (getCurrentPlayer g3)"
    obtain q where q: "getCurrentPlayer g3 = Id q"
      using getCurrentPlayer_in_range [OF st g3(6)] by blast
    have res: "endTurn rnd g p = Some (SuccessState (getState ?g4), ?g4)"
      using cur wrap' y yb False by (simp add: endTurn_def Let_def)
    have ta: "q \<noteq> [] \<longrightarrow> turnActions ?g4 = (turnActions g)(q \<mapsto> freshTurnAction)"
      using q g3(5) by (simp add: resetTurnActions_def)
    have elim4: "\<not> isPlayerEliminated ?g4 (Id q)"
      using notElim q isPlayerEliminated_cong [of ?g4 g3] by simp
    have cnt4: "monsterCount ?g4 = monsterCount g"
      using g3(1) monsterCount_cong [of ?g4 g] by simp
    have cur4: "getCurrentPlayer ?g4 = Id q"
      using q by simp
    have last: "\<exists>q. getCurrentPlayer ?g4 = Id q \<and> \<not> isPlayerEliminated ?g4 (Id q)
        \<and> (q \<noteq> [] \<longrightarrow> turnActions ?g4 = (turnActions g)(q \<mapsto> freshTurnAction))"
      using cur4 elim4 ta by blast
    have st4: "status ?g4 = Active"
      using st by simp
    have basics: "g_round ?g4 = g_round g + 1
           \<and> mset (playerOrder ?g4) = mset (playerOrder g)
           \<and> sorted (map (monsterCount ?g4) (playerOrder ?g4))
           \<and> players ?g4 = players g \<and> board ?g4 = board g"
      using g3 perm srt cnt4 by simp
    have "endTurn rnd g p = Some (SuccessState (getState ?g4), ?g4)
           \<and> g_round ?g4 = g_round g + 1
           \<and> mset (playerOrder ?g4) = mset (playerOrder g)
           \<and> sorted (map (monsterCount ?g4) (playerOrder ?g4))
           \<and> players ?g4 = players g \<and> board ?g4 = board g
           \<and> (status ?g4 = Active \<or> status ?g4 = Finished)
           \<and> (status ?g4 = Finished \<longrightarrow> turnActions ?g4 = turnActions g)
           \<and> (status ?g4 = Active \<longrightarrow>
                 (\<exists>q. getCurrentPlayer ?g4 = Id q \<and> \<not> isPlayerEliminated ?g4 (Id q)
                    \<and> (q \<noteq> [] \<longrightarrow> turnActions ?g4 = (turnActions g)(q \<mapsto> freshTurnAction))))"
      using res basics st4 last by (simp only: game_status.simps simp_thms)
    then show ?thesis
      by (intro exI)
  qed
qed

theorem endTurn_round_boundary_witness:
  "getCurrentPlayer roundEndGame = Id ''P2'' \<and>
   (currentPlayerIndex roundEndGame + 1) mod length (playerOrder roundEndGame) = 0 \<and>
   endTurn zeros roundEndGame ''P2''
     = Some (SuccessState (getState newRoundGame), newRoundGame) \<and>
   g_round newRoundGame = g_round roundEndGame + 1 \<and>
   playerOrder roundEndGame = [''P1'', ''P2''] \<and>
   playerOrder newRoundGame = [''P2'', ''P1''] \<and>
   map (monsterCount newRoundGame) (playerOrder newRoundGame) = [0, 1] \<and>
   sorted (map (monsterCount newRoundGame) (playerOrder newRoundGame)) \<and>
   status newRoundGame = Active \<and>
   turnActions newRoundGame = (turnActions roundEndGame)(''P2'' \<mapsto> freshTurnAction)"
proof -
  have cur: "getCurrentPlayer roundEndGame = Id ''P2''"
    by (simp add: roundEndGame_def demoGame_eq getCurrentPlayer_def at_index_def)
  have wrap: "(currentPlayerIndex roundEndGame + 1) mod length (playerOrder roundEndGame) = 0"
    by (simp add: roundEndGame_def demoGame_eq)
  obtain g' where all: "endTurn zeros roundEndGame ''P2''
             = Some (SuccessState (getState g'), g')
           \<and> g_round g' = g_round roundEndGame + 1
           \<and> mset (playerOrder g') = mset (playerOrder roundEndGame)
           \<and> sorted (map (monsterCount g') (playerOrder g'))
           \<and> players g' = players roundEndGame \<and> board g' = board roundEndGame
           \<and> (status g' = Active \<or> status g' = Finished)
           \<and> (status g' = Finished \<longrightarrow> turnActions g' = turnActions roundEndGame)
           \<and> (status g' = Active \<longrightarrow>
                 (\<exists>q. getCurrentPlayer g' = Id q \<and> \<not> isPlayerEliminated g' (Id q)
                    \<and> (q \<noteq> [] \<longrightarrow>
                         turnActions g' = (turnActions roundEndGame)(q \<mapsto> freshTurnAction))))"
    using endTurn_round_boundary [OF cur wrap, of zeros] ..
  have res: "endTurn zeros roundEndGame ''P2'' = Some (SuccessState (getState g'), g')"
    using all by (rule conjunct1)
  have rnd: "g_round g' = g_round roundEndGame + 1"
    using all by (elim conjE)
  have srt: "sorted (map (monsterCount g') (playerOrder g'))"
    using all by (elim conjE)
  have ta: "status g' = Active \<longrightarrow>
         (\<exists>q. getCurrentPlayer g' = Id q \<and> \<not> isPlayerEliminated g' (Id q)
            \<and> (q \<noteq> [] \<longrightarrow> turnActions g' = (turnActions roundEndGame)(q \<mapsto> freshTurnAction)))"
    using all by (elim conjE)
  have g': "g' = newRoundGame"
    using res roundEnd_endTurn by (metis option.inject snd_conv)
  have act: "status newRoundGame = Active"
    by (simp add: newRoundGame_def roundEndGame_def demoGame_eq)
  have now: "getCurrentPlayer newRoundGame = Id ''P2''"
    by (simp add: newRoundGame_def roundEndGame_def demoGame_eq getCurrentPlayer_def
        at_index_def)
  have reset: "turnActions newRoundGame = (turnActions roundEndGame)(''P2'' \<mapsto> freshTurnAction)"
    using ta g' act now by auto
  have orders: "playerOrder roundEndGame = [''P1'', ''P2'']"
    "playerOrder newRoundGame = [''P2'', ''P1'']"
    by (simp_all add: newRoundGame_def roundEndGame_def demoGame_eq)
  have counts: "map (monsterCount newRoundGame) (playerOrder newRoundGame) = [0, 1]"
    by (simp add: newRoundGame_def roundEndGame_def demoGame_eq monsterCount_def
        zero_enat_def one_enat_def)
  show ?thesis
    using cur wrap roundEnd_endTurn rnd srt g' act reset orders counts by simp
qed

text \<open>
  Not every turn record is reset at the round boundary. At the end of round 1 \<open>P1\<close>
  has placed a monster and \<open>P2\<close> has none; when \<open>P2\<close> ends the turn, round 2 begins
  with \<open>P2\<close> first, and \<open>P1\<close>'s turn record still says that \<open>P1\<close> has placed.
\<close>

theorem round_boundary_keeps_other_turn_actions:
  "endTurn zeros roundEndGame ''P2''
     = Some (SuccessState (getState newRoundGame), newRoundGame) \<and>
   (currentPlayerIndex roundEndGame + 1) mod length (playerOrder roundEndGame) = 0 \<and>
   g_round newRoundGame = g_round roundEndGame + 1 \<and>
   getCurrentPlayer newRoundGame = Id ''P2'' \<and>
   turnActions newRoundGame ''P1''
     = Some \<lparr>placedMonster = True, placedMonsterId = None, movedMonsters = {}\<rparr> \<and>
   turnActions newRoundGame ''P1'' \<noteq> Some freshTurnAction"
  using roundEnd_endTurn
  by (simp add: newRoundGame_def roundEndGame_def demoGame_eq freshTurnAction_def
      getCurrentPlayer_def at_index_def)

subsection \<open>Monster types\<close>

lemma typesValid_cong:
  "board g' = board g \<Longrightarrow> players g' = players g \<Longrightarrow> typesValid g' = typesValid g"
  by (simp add: typesValid_def)

lemma typesValid_setCell_None: "typesValid g \<Longrightarrow> typesValid (setCell g x y None)"
  by (simp add: typesValid_def setCell_def)

lemma typesValid_setCell_Some:
  "typesValid g \<Longrightarrow> m_type m \<in> set monsterTypes \<Longrightarrow> typesValid (setCell g x y (Some m))"
  by (simp add: typesValid_def setCell_def)

lemma typesValid_roster:
  assumes "typesValid g" and "players g q = Some pl" and "set ms \<subseteq> set (monsters pl)"
  shows "typesValid (g\<lparr>players := (players g)(q \<mapsto> pl\<lparr>monsters := ms, monstersLost := n\<rparr>)\<rparr>)"
  using assms by (auto simp add: typesValid_def)

lemma set_splice1: "set (splice1 i xs) \<subseteq> set xs"
  by (auto simp add: splice1_def dest: in_set_takeD in_set_dropD)

lemma findIndex_Some:
  "findIndex P xs = Some i \<Longrightarrow> i < length xs \<and> P (xs ! i)"
proof (induction xs arbitrary: i)
  case Nil
  then show ?case by simp
next
  case (Cons x xs)
  then show ?case
    by (cases "P x") (auto split: option.splits)
qed

lemma typesValid_removeMonster: "typesValid g \<Longrightarrow> typesValid (removeMonster g m ownerId)"
proof -
  assume ok: "typesValid g"
  show ?thesis
  proof (cases "players g ownerId")
    case None
    then show ?thesis using ok by (simp add: removeMonster_def)
  next
    case (Some pl)
    show ?thesis
    proof (cases "findIndex (\<lambda>k. m_id k = m) (monsters pl)")
      case None
      then show ?thesis using ok Some by (simp add: removeMonster_def)
    next
      case (Some i)
      let ?mon = "monsters pl ! i"
      let ?g1 = "if map_option m_id (cellAt g (m_x ?mon) (m_y ?mon)) = Some m
                 then setCell g (m_x ?mon) (m_y ?mon) None else g"
      have g1: "typesValid ?g1" "players ?g1 ownerId = Some pl"
        using ok \<open>players g ownerId = Some pl\<close> by (simp_all add: typesValid_setCell_None)
      have "removeMonster g m ownerId
          = ?g1\<lparr>players := (players ?g1)(ownerId \<mapsto>
                pl\<lparr>monsters := splice1 i (monsters pl), monstersLost := monstersLost pl + 1\<rparr>)\<rparr>"
        using Some \<open>players g ownerId = Some pl\<close> by (simp add: removeMonster_def Let_def)
      then show ?thesis
        using typesValid_roster [OF g1 set_splice1] by simp
    qed
  qed
qed

lemma typesValid_handleConflict:
  "typesValid g \<Longrightarrow> typesValid (handleConflict g x y p e)"
  by (simp add: handleConflict_def typesValid_removeMonster split: option.splits)

lemma typesValid_endGame [simp]: "typesValid (endGame g w) = typesValid g"
  by (rule typesValid_cong) simp_all

lemma typesValid_declareWinner [simp]: "typesValid (declareWinner g) = typesValid g"
  by (rule typesValid_cong) simp_all

lemma typesValid_turnActions [simp]:
  "typesValid (g\<lparr>turnActions := ta\<rparr>) = typesValid g"
  by (simp add: typesValid_def)

lemma typesValid_placeMonster:
  assumes "placeMonster g monsterId p type x y = Inr (r, g')" and "typesValid g"
  shows "typesValid g'"
proof (cases "getCurrentPlayer g = Id p \<and> \<not> hasPlaced g p \<and> type \<in> set monsterTypes
              \<and> isValidPlacement g p x y")
  case False
  then have "g' = g"
    using assms(1) by (auto simp add: placeMonster_def split: if_splits)
  then show ?thesis
    using assms(2) by simp
next
  case True
  then obtain pl where pl: "players g p = Some pl"
    by (auto simp add: isValidPlacement_def split: option.splits)
  let ?m = "\<lparr>m_id = monsterId, m_type = type, m_x = x, m_y = y, m_owner = p\<rparr>"
  let ?g1 = "g\<lparr>players := (players g)(p \<mapsto> pl\<lparr>monsters := monsters pl @ [?m]\<rparr>)\<rparr>"
  have "typesValid ?g1"
    using assms(2) True pl by (auto simp add: typesValid_def)
  then have g2: "typesValid (setCell ?g1 x y (Some ?m))"
    using True by (simp add: typesValid_setCell_Some)
  obtain ta where "g' = (setCell ?g1 x y (Some ?m))\<lparr>turnActions := ta\<rparr>"
    using assms(1) True pl
    by (auto simp add: placeMonster_def Let_def split: option.splits)
  then show ?thesis
    using g2 by simp
qed

lemma typesValid_moveMonster:
  assumes "moveMonster g p monsterId newX newY = Inr (r, g')" and "typesValid g"
  shows "typesValid g'"
proof (cases r)
  case (Failure msg)
  then have "g' = g"
    using assms(1)
    by (auto simp add: moveMonster_def Let_def split: if_splits option.splits)
  then show ?thesis
    using assms(2) by simp
next
  case (Success msg)
  obtain pl i where pl: "players g p = Some pl"
    and i: "findIndex (\<lambda>m. m_id m = monsterId) (monsters pl) = Some i"
    using assms(1) Success
    by (auto simp add: moveMonster_def Let_def split: if_splits option.splits)
  let ?mon = "monsters pl ! i"
  let ?moved = "?mon\<lparr>m_x := newX, m_y := newY\<rparr>"
  let ?g2 = "setCell (setCell g (m_x ?mon) (m_y ?mon) None) newX newY (Some ?moved)"
  let ?g3 = "?g2\<lparr>players := (players ?g2)(p \<mapsto> pl\<lparr>monsters := (monsters pl)[i := ?moved]\<rparr>)\<rparr>"
  have inRoster: "?mon \<in> set (monsters pl)"
    using findIndex_Some [OF i] by simp
  then have ty: "m_type ?moved \<in> set monsterTypes"
    using assms(2) pl by (auto simp add: typesValid_def)
  have g2: "typesValid ?g2"
    using assms(2) ty by (simp add: typesValid_setCell_None typesValid_setCell_Some)
  have g3: "typesValid ?g3"
    using g2 pl ty by (auto simp add: typesValid_def dest!: set_update_subset_insert [THEN subsetD])
  obtain ta where "g' = declareWinner (?g3\<lparr>turnActions := ta\<rparr>)
      \<or> g' = declareWinner (handleConflict (?g3\<lparr>turnActions := ta\<rparr>) newX newY p (board g newY newX))"
    using assms(1) Success pl i
    by (auto simp add: moveMonster_def Let_def split: if_splits option.splits)
  then show ?thesis
    using g3 by (auto simp add: typesValid_handleConflict)
next
  case (SuccessState st)
  then show ?thesis
    using assms(1)
    by (auto simp add: moveMonster_def Let_def split: if_splits option.splits)
next
  case Joined
  then show ?thesis
    using assms(1)
    by (auto simp add: moveMonster_def Let_def split: if_splits option.splits)
qed

lemma typesValid_endTurn:
  assumes "endTurn rnd g p = Some (r, g')" and "typesValid g"
  shows "typesValid g'"
proof (cases "getCurrentPlayer g = Id p")
  case False
  then have "g' = g"
    using assms(1) by (simp add: endTurn_def)
  then show ?thesis
    using assms(2) by simp
next
  case True
  let ?g2 = "if currentPlayerIndex (advance g) = 0 then newRound rnd (advance g) else advance g"
  have g2: "board ?g2 = board g" "players ?g2 = players g"
    by simp_all
  obtain b g3 where skip: "skipEliminated ?g2 = Some (b, g3)"
    and g': "g' = g3 \<or> g' = resetTurnActions g3 (getCurrentPlayer g3)"
    using assms(1) True
    by (auto simp add: endTurn_def Let_def split: option.splits if_splits)
  have "skipKeeps ?g2 (b, g3)"
    using skip by (rule skip_fields)
  then have "board g3 = board g" "players g3 = players g"
    using g2 by (simp_all add: skipKeeps_def)
  then have "board g' = board g" "players g' = players g"
    using g' by auto
  then show ?thesis
    using assms(2) typesValid_cong by blast
qed

lemma typesValid_addPlayer: "typesValid g \<Longrightarrow> typesValid (snd (addPlayer g p))"
  by (auto simp add: addPlayer_def typesValid_def split: list.splits)

lemma typesValid_newGame: "typesValid (newGame gameId creatorId)"
  unfolding newGame_def by (rule typesValid_addPlayer) (simp add: typesValid_def)

lemma typesValid_startGame: "typesValid g \<Longrightarrow> typesValid (snd (startGame rnd g))"
  by (simp add: startGame_def typesValid_def)

lemma typesValid_clearOwned: "typesValid g \<Longrightarrow> typesValid (clearOwned p m g)"
  by (simp add: clearOwned_def typesValid_setCell_None)

lemma typesValid_fold_clearOwned: "typesValid g \<Longrightarrow> typesValid (fold (clearOwned p) ms g)"
  by (induction ms arbitrary: g) (simp_all add: typesValid_clearOwned)

lemma leaveOrder_fields [simp]:
  "board (leaveOrder g p) = board g"
  "players (leaveOrder g p) = players g"
  by (simp_all add: leaveOrder_def Let_def split: option.splits)

lemma typesValid_drop_player:
  "typesValid g \<Longrightarrow> typesValid (g\<lparr>players := (players g)(p := None), turnActions := ta\<rparr>)"
  by (auto simp add: typesValid_def)

lemma typesValid_removePlayer: "typesValid g \<Longrightarrow> typesValid (removePlayer g p)"
proof -
  assume ok: "typesValid g"
  show ?thesis
  proof (cases "players g p")
    case None
    then show ?thesis using ok by (simp add: removePlayer_def)
  next
    case (Some pl)
    let ?g1 = "g\<lparr>availableEdges := jsSort byEdgeRank (availableEdges g @ [edge pl])\<rparr>"
    let ?g3 = "leaveOrder (fold (clearOwned p) (monsters pl) ?g1) p"
    let ?g4 = "?g3\<lparr>players := (players ?g3)(p := None),
                   turnActions := (turnActions ?g3)(p := None)\<rparr>"
    have "typesValid ?g1"
      using ok by (simp add: typesValid_def)
    then have "typesValid (fold (clearOwned p) (monsters pl) ?g1)"
      by (rule typesValid_fold_clearOwned)
    then have "typesValid ?g3"
      using typesValid_cong [of ?g3 "fold (clearOwned p) (monsters pl) ?g1"] by simp
    then have g4: "typesValid ?g4"
      by (rule typesValid_drop_player)
    have "board (removePlayer g p) = board ?g4 \<and> players (removePlayer g p) = players ?g4"
      using Some by (simp add: removePlayer_def Let_def endGame_def)
    then show ?thesis
      using g4 typesValid_cong by blast
  qed
qed

lemma reachable_typesValid: "reachable g \<Longrightarrow> typesValid g"
proof (induction rule: reachable.induct)
  case (created gameId creatorId)
  show ?case by (rule typesValid_newGame)
next
  case (joined g playerId)
  then show ?case by (simp add: typesValid_addPlayer)
next
  case (left g playerId)
  then show ?case by (simp add: typesValid_removePlayer)
next
  case (started g rnd)
  then show ?case by (simp add: typesValid_startGame)
next
  case (placed g monsterId playerId type x y r g')
  then show ?case using typesValid_placeMonster by blast
next
  case (moved g playerId monsterId newX newY r g')
  then show ?case using typesValid_moveMonster by blast
next
  case (turnEnded g rnd playerId r g')
  then show ?case using typesValid_endTurn by blast
qed

lemma reachable_demoGame: "reachable demoGame"
  unfolding demoGame_def demoLobby_def
  by (intro reachable.started reachable.joined reachable.created)

lemma reachable_placedGame: "reachable placedGame"
  using reachable.placed [OF reachable_demoGame place_vampire] .

text \<open>
  C10, as the code has it. \<open>placeMonster\<close> called by the current player with a type
  outside \<open>vampire\<close>, \<open>werewolf\<close>, \<open>ghost\<close> fails and returns the session unchanged.
  The reason depends on the flag \<open>turnActions[playerId].placedMonster\<close> alone
  (\<open>hasPlaced\<close>; a missing turn record counts as a flag that is not set): it is
  "Invalid monster type." when the flag is not set, and when the flag is set the
  earlier test answers "You have already placed a monster this turn.". A successful
  placement has one of the three types, and in every session the methods can reach
  every monster on the board and in a roster has one of them.
\<close>

theorem invalid_type_rejected:
  "set monsterTypes = {''vampire'', ''werewolf'', ''ghost''} \<and>
   (getCurrentPlayer g = Id p \<and> type \<notin> set monsterTypes \<longrightarrow>
      placeMonster g monsterId p type x y
        = Inr (Failure (if hasPlaced g p
                        then ''You have already placed a monster this turn.''
                        else ''Invalid monster type.''), g)) \<and>
   (placeMonster g monsterId p type x y = Inr (Success msg, g') \<longrightarrow>
      type \<in> set monsterTypes) \<and>
   (reachable g \<longrightarrow> typesValid g)"
proof -
  have types: "set monsterTypes = {''vampire'', ''werewolf'', ''ghost''}"
    by (simp add: monsterTypes_def)
  have reject: "getCurrentPlayer g = Id p \<and> type \<notin> set monsterTypes \<longrightarrow>
      placeMonster g monsterId p type x y
        = Inr (Failure (if hasPlaced g p
                        then ''You have already placed a monster this turn.''
                        else ''Invalid monster type.''), g)"
    by (simp add: placeMonster_def)
  have accept: "placeMonster g monsterId p type x y = Inr (Success msg, g') \<longrightarrow>
      type \<in> set monsterTypes"
    by (auto simp add: placeMonster_def Let_def split: if_splits option.splits)
  show ?thesis
    using types reject accept reachable_typesValid by blast
qed

theorem invalid_type_rejected_witness:
  "getCurrentPlayer demoGame = Id ''P1'' \<and> ''zombie'' \<notin> set monsterTypes \<and>
   \<not> hasPlaced demoGame ''P1'' \<and>
   placeMonster demoGame ''m1'' ''P1'' ''zombie'' 3 0
     = Inr (Failure ''Invalid monster type.'', demoGame) \<and>
   placeMonster demoGame ''m1'' ''P1'' ''vampire'' 3 0
     = Inr (Success ''Monster vampire placed at (3, 0).'', placedGame) \<and>
   ''vampire'' \<in> set monsterTypes \<and>
   reachable placedGame \<and> typesValid placedGame \<and>
   rosterOf placedGame ''P1'' = Some [vampireAt30] \<and>
   board placedGame 0 3 = Some vampireAt30"
proof -
  have cur: "getCurrentPlayer demoGame = Id ''P1''"
    by (simp add: demoGame_eq getCurrentPlayer_def at_index_def)
  have bad: "''zombie'' \<notin> set monsterTypes"
    by (simp add: monsterTypes_def)
  have notPlaced: "\<not> hasPlaced demoGame ''P1''"
    by (simp add: demoGame_eq hasPlaced_def freshTurnAction_def)
  have there: "rosterOf placedGame ''P1'' = Some [vampireAt30]"
    "board placedGame 0 3 = Some vampireAt30"
    by (simp_all add: placedGame_def rosterOf_def)
  show ?thesis
    using cur bad notPlaced there place_vampire reachable_placedGame
      invalid_type_rejected [of demoGame "''P1''" "''zombie''" "''m1''" 3 0]
      invalid_type_rejected [of demoGame "''P1''" "''vampire''" "''m1''" 3 0
        "''Monster vampire placed at (3, 0).''" placedGame]
      invalid_type_rejected [of placedGame]
    by simp
qed

text \<open>
  C10 as stated, with the reason always "Invalid monster type.", fails when the flag
  is set: after \<open>P1\<close> has placed the vampire, a placement of a \<open>zombie\<close> is rejected as
  a second placement.
\<close>

theorem invalid_type_after_placing:
  "getCurrentPlayer placedGame = Id ''P1'' \<and> ''zombie'' \<notin> set monsterTypes \<and>
   placeMonster placedGame ''m2'' ''P1'' ''zombie'' 4 0
     = Inr (Failure ''You have already placed a monster this turn.'', placedGame)"
  by (simp add: placedGame_def vampireAt30_def demoGame_eq place_defs)

subsection \<open>No method throws on a session the methods can reach\<close>

lemma set_jsSort [simp]: "set (jsSort cmp xs) = set xs"
  using mset_jsSort [of cmp xs] by (rule mset_eq_setD)

lemma distinct_jsSort [simp]: "distinct (jsSort cmp xs) = distinct xs"
  using mset_jsSort [of cmp xs] by (rule mset_eq_imp_distinct_iff)

lemma fold_reset:
  "fold (\<lambda>pid ta. ta(pid \<mapsto> v)) xs ta p = (if p \<in> set xs then Some v else ta p)"
  by (induction xs arbitrary: ta) auto

lemma wellFormed_addPlayer: "wellFormed g \<Longrightarrow> wellFormed (snd (addPlayer g p))"
  by (auto simp add: addPlayer_def wellFormed_def split: list.splits)

lemma wellFormed_newGame: "wellFormed (newGame gameId creatorId)"
  unfolding newGame_def by (rule wellFormed_addPlayer) (simp add: wellFormed_def)

lemma wellFormed_startGame: "wellFormed g \<Longrightarrow> wellFormed (snd (startGame rnd g))"
  by (auto simp add: startGame_def wellFormed_def resetTurnActions_def fold_reset)

lemma wellFormed_placeMonster:
  assumes "placeMonster g monsterId p type x y = Inr (r, g')" and "wellFormed g"
  shows "wellFormed g'"
proof (cases "getCurrentPlayer g = Id p \<and> \<not> hasPlaced g p \<and> type \<in> set monsterTypes
              \<and> isValidPlacement g p x y")
  case False
  then have "g' = g"
    using assms(1) by (auto simp add: placeMonster_def split: if_splits)
  then show ?thesis
    using assms(2) by simp
next
  case True
  then obtain pl where pl: "players g p = Some pl" and row: "rowExists y"
    by (auto simp add: isValidPlacement_def rowExists_def split: option.splits if_splits)
  let ?m = "\<lparr>m_id = monsterId, m_type = type, m_x = x, m_y = y, m_owner = p\<rparr>"
  obtain ta where g': "g' = (setCell (g\<lparr>players := (players g)(p \<mapsto>
        pl\<lparr>monsters := monsters pl @ [?m]\<rparr>)\<rparr>) x y (Some ?m))
          \<lparr>turnActions := (turnActions g)(p \<mapsto> ta)\<rparr>"
    using assms(1) True pl
    by (auto simp add: placeMonster_def Let_def split: option.splits)
  show ?thesis
    using assms(2) pl row unfolding g' by (auto simp add: wellFormed_def)
qed

lemma wellFormed_removeMonster: "wellFormed g \<Longrightarrow> wellFormed (removeMonster g m ownerId)"
proof -
  assume ok: "wellFormed g"
  show ?thesis
  proof (cases "players g ownerId")
    case None
    then show ?thesis using ok by (simp add: removeMonster_def)
  next
    case (Some pl)
    show ?thesis
    proof (cases "findIndex (\<lambda>k. m_id k = m) (monsters pl)")
      case None
      then show ?thesis using ok Some by (simp add: removeMonster_def)
    next
      case (Some i)
      have players': "players (removeMonster g m ownerId) = (players g)(ownerId \<mapsto>
           pl\<lparr>monsters := splice1 i (monsters pl), monstersLost := monstersLost pl + 1\<rparr>)"
        using removeMonster_players [OF \<open>players g ownerId = Some pl\<close> Some] .
      show ?thesis
        using ok \<open>players g ownerId = Some pl\<close> set_splice1 [of i "monsters pl"]
        unfolding wellFormed_def players' by (auto simp del: fun_upd_apply simp add: fun_upd_apply)
    qed
  qed
qed

lemma wellFormed_handleConflict: "wellFormed g \<Longrightarrow> wellFormed (handleConflict g x y p e)"
  by (simp add: handleConflict_def wellFormed_removeMonster split: option.splits)

lemma wellFormed_endGame: "wellFormed g \<Longrightarrow> wellFormed (endGame g w)"
  by (simp add: wellFormed_def endGame_def)

lemma wellFormed_declareWinner: "wellFormed g \<Longrightarrow> wellFormed (declareWinner g)"
  by (simp add: declareWinner_def wellFormed_endGame)

lemma isValidMove_row: "isValidMove g p monster newX newY \<Longrightarrow> rowExists newY"
  by (auto simp add: isValidMove_def rowExists_def split: if_splits)

lemma wellFormed_moveMonster:
  assumes "moveMonster g p monsterId newX newY = Inr (r, g')" and "wellFormed g"
  shows "wellFormed g'"
proof (cases r)
  case (Failure msg)
  then have "g' = g"
    using assms(1)
    by (auto simp add: moveMonster_def Let_def split: if_splits option.splits)
  then show ?thesis
    using assms(2) by simp
next
  case (Success msg)
  obtain pl i where pl: "players g p = Some pl"
    and i: "findIndex (\<lambda>m. m_id m = monsterId) (monsters pl) = Some i"
    using assms(1) Success
    by (auto simp add: moveMonster_def Let_def split: if_splits option.splits)
  let ?mon = "monsters pl ! i"
  let ?moved = "?mon\<lparr>m_x := newX, m_y := newY\<rparr>"
  let ?g2 = "setCell (setCell g (m_x ?mon) (m_y ?mon) None) newX newY (Some ?moved)"
  let ?g3 = "?g2\<lparr>players := (players ?g2)(p \<mapsto> pl\<lparr>monsters := (monsters pl)[i := ?moved]\<rparr>)\<rparr>"
  have valid: "isValidMove g p ?mon newX newY"
    using assms(1) Success pl i
    by (auto simp add: moveMonster_def Let_def split: if_splits option.splits)
  then have row: "rowExists (m_y ?moved)"
    using isValidMove_row by simp
  have g3: "wellFormed ?g3"
    using assms(2) pl row
    by (auto simp add: wellFormed_def dest!: set_update_subset_insert [THEN subsetD])
  obtain ta where ta: "turnActions g p = Some ta"
    and g': "g' = declareWinner (?g3\<lparr>turnActions := (turnActions g)(p \<mapsto>
              ta\<lparr>movedMonsters := insert monsterId (movedMonsters ta)\<rparr>)\<rparr>)
      \<or> g' = declareWinner (handleConflict (?g3\<lparr>turnActions := (turnActions g)(p \<mapsto>
              ta\<lparr>movedMonsters := insert monsterId (movedMonsters ta)\<rparr>)\<rparr>)
              newX newY p (board g newY newX))"
    using assms(1) Success pl i
    by (auto simp add: moveMonster_def Let_def split: if_splits option.splits)
  have "wellFormed (?g3\<lparr>turnActions := (turnActions g)(p \<mapsto>
              ta\<lparr>movedMonsters := insert monsterId (movedMonsters ta)\<rparr>)\<rparr>)"
    using g3 by (auto simp add: wellFormed_def)
  then show ?thesis
    using g' wellFormed_declareWinner wellFormed_handleConflict by blast
next
  case (SuccessState st)
  then show ?thesis
    using assms(1)
    by (auto simp add: moveMonster_def Let_def split: if_splits option.splits)
next
  case Joined
  then show ?thesis
    using assms(1)
    by (auto simp add: moveMonster_def Let_def split: if_splits option.splits)
qed

lemma wellFormed_endTurn:
  assumes "endTurn rnd g p = Some (r, g')" and "wellFormed g"
  shows "wellFormed g'"
proof (cases "getCurrentPlayer g = Id p")
  case False
  then have "g' = g"
    using assms(1) by (simp add: endTurn_def)
  then show ?thesis
    using assms(2) by simp
next
  case True
  let ?g2 = "if currentPlayerIndex (advance g) = 0 then newRound rnd (advance g) else advance g"
  have g2: "players ?g2 = players g" "turnActions ?g2 = turnActions g"
    "set (playerOrder ?g2) = set (playerOrder g)"
    "distinct (playerOrder ?g2) = distinct (playerOrder g)"
    by simp_all
  obtain b g3 where skip: "skipEliminated ?g2 = Some (b, g3)"
    and g': "g' = g3 \<or> g' = resetTurnActions g3 (getCurrentPlayer g3)"
    using assms(1) True
    by (auto simp add: endTurn_def Let_def split: option.splits if_splits)
  have "skipKeeps ?g2 (b, g3)"
    using skip by (rule skip_fields)
  then have g3: "players g3 = players g" "turnActions g3 = turnActions g"
    "playerOrder g3 = playerOrder ?g2" "status g3 = Active \<longrightarrow> status g = Active"
    using g2 by (auto simp add: skipKeeps_def split: if_splits)
  have wf3: "wellFormed g3"
    using assms(2) g3 g2 unfolding wellFormed_def by auto
  have "wellFormed (resetTurnActions g3 v)" for v
    using wf3 by (auto simp add: wellFormed_def resetTurnActions_def fold_reset)
  then show ?thesis
    using g' wf3 by auto
qed

lemma fold_clearOwned_fields [simp]:
  "players (fold (clearOwned p) ms g) = players g"
  "playerOrder (fold (clearOwned p) ms g) = playerOrder g"
  "status (fold (clearOwned p) ms g) = status g"
  "turnActions (fold (clearOwned p) ms g) = turnActions g"
  "currentPlayerIndex (fold (clearOwned p) ms g) = currentPlayerIndex g"
  by (induction ms arbitrary: g) (simp_all add: clearOwned_def)

lemma findIndex_None: "findIndex P xs = None \<Longrightarrow> \<forall>x \<in> set xs. \<not> P x"
  by (induction xs) (auto split: if_splits option.splits)

lemma splice1_distinct:
  assumes "distinct xs" and "i < length xs"
  shows "distinct (splice1 i xs) \<and> xs ! i \<notin> set (splice1 i xs)
         \<and> set (splice1 i xs) \<subseteq> set xs"
proof -
  have "xs = take i xs @ xs ! i # drop (Suc i) xs"
    using assms(2) by (rule id_take_nth_drop)
  then have "distinct (take i xs @ xs ! i # drop (Suc i) xs)"
    using assms(1) by simp
  then show ?thesis
    using set_splice1 [of i xs] by (auto simp add: splice1_def)
qed

lemma leaveOrder_order:
  assumes "distinct (playerOrder g)"
  shows "distinct (playerOrder (leaveOrder g p)) \<and> p \<notin> set (playerOrder (leaveOrder g p))
         \<and> set (playerOrder (leaveOrder g p)) \<subseteq> set (playerOrder g)"
proof (cases "findIndex (\<lambda>q. q = p) (playerOrder g)")
  case None
  then show ?thesis
    using assms findIndex_None [OF None] by (auto simp add: leaveOrder_def)
next
  case (Some i)
  have i: "i < length (playerOrder g)" "playerOrder g ! i = p"
    using findIndex_Some [OF Some] by simp_all
  have "playerOrder (leaveOrder g p) = splice1 i (playerOrder g)"
    using Some by (simp add: leaveOrder_def Let_def)
  then show ?thesis
    using splice1_distinct [OF assms i(1)] i(2) by simp
qed

lemma leaveOrder_more_fields [simp]:
  "status (leaveOrder g p) = status g"
  "turnActions (leaveOrder g p) = turnActions g"
  by (simp_all add: leaveOrder_def Let_def split: option.splits)

lemma wellFormed_removePlayer: "wellFormed g \<Longrightarrow> wellFormed (removePlayer g p)"
proof -
  assume ok: "wellFormed g"
  show ?thesis
  proof (cases "players g p")
    case None
    then show ?thesis using ok by (simp add: removePlayer_def)
  next
    case (Some pl)
    let ?g1 = "g\<lparr>availableEdges := jsSort byEdgeRank (availableEdges g @ [edge pl])\<rparr>"
    let ?g2 = "fold (clearOwned p) (monsters pl) ?g1"
    let ?g3 = "leaveOrder ?g2 p"
    let ?g4 = "?g3\<lparr>players := (players ?g3)(p := None),
                   turnActions := (turnActions ?g3)(p := None)\<rparr>"
    have order: "distinct (playerOrder ?g3) \<and> p \<notin> set (playerOrder ?g3)
         \<and> set (playerOrder ?g3) \<subseteq> set (playerOrder g)"
      using leaveOrder_order [of ?g2 p] ok by (simp add: wellFormed_def)
    have g4: "wellFormed ?g4"
      using ok order unfolding wellFormed_def by auto
    have same: "playerOrder (removePlayer g p) = playerOrder ?g4
        \<and> players (removePlayer g p) = players ?g4
        \<and> turnActions (removePlayer g p) = turnActions ?g4
        \<and> (status (removePlayer g p) = Active \<longrightarrow> status ?g4 = Active)"
      using Some by (simp add: removePlayer_def Let_def endGame_def)
    show ?thesis
      using g4 same unfolding wellFormed_def by simp
  qed
qed

lemma reachable_wellFormed: "reachable g \<Longrightarrow> wellFormed g"
proof (induction rule: reachable.induct)
  case (created gameId creatorId)
  show ?case by (rule wellFormed_newGame)
next
  case (joined g playerId)
  then show ?case by (simp add: wellFormed_addPlayer)
next
  case (left g playerId)
  then show ?case by (simp add: wellFormed_removePlayer)
next
  case (started g rnd)
  then show ?case by (simp add: wellFormed_startGame)
next
  case (placed g monsterId playerId type x y r g')
  then show ?case using wellFormed_placeMonster by blast
next
  case (moved g playerId monsterId newX newY r g')
  then show ?case using wellFormed_moveMonster by blast
next
  case (turnEnded g rnd playerId r g')
  then show ?case using wellFormed_endTurn by blast
qed

lemma current_player_in_order:
  "getCurrentPlayer g = Id p \<Longrightarrow> p \<in> set (playerOrder g) \<and> status g = Active"
  by (auto simp add: getCurrentPlayer_def at_index_def split: if_splits)

lemma wellFormed_no_TypeError:
  assumes "wellFormed g"
  shows "placeMonster g monsterId p type x y \<noteq> Inl TypeError"
    and "moveMonster g p movedId newX newY \<noteq> Inl TypeError"
proof -
  show "placeMonster g monsterId p type x y \<noteq> Inl TypeError"
  proof (cases "getCurrentPlayer g = Id p")
    case False
    then show ?thesis by (simp add: placeMonster_def)
  next
    case True
    then have "players g p \<noteq> None" "turnActions g p \<noteq> None"
      using assms current_player_in_order [OF True] by (simp_all add: wellFormed_def)
    then obtain pl ta where "players g p = Some pl" "turnActions g p = Some ta"
      by auto
    then show ?thesis
      by (simp add: placeMonster_def Let_def)
  qed
  show "moveMonster g p movedId newX newY \<noteq> Inl TypeError"
  proof (cases "getCurrentPlayer g = Id p")
    case False
    then show ?thesis by (simp add: moveMonster_def)
  next
    case True
    then have "players g p \<noteq> None" "turnActions g p \<noteq> None"
      using assms current_player_in_order [OF True] by (simp_all add: wellFormed_def)
    then obtain pl ta where pl: "players g p = Some pl" and ta: "turnActions g p = Some ta"
      by auto
    show ?thesis
    proof (cases "findIndex (\<lambda>m. m_id m = movedId) (monsters pl)")
      case None
      then show ?thesis using True pl by (simp add: moveMonster_def)
    next
      case (Some i)
      then have "monsters pl ! i \<in> set (monsters pl)"
        using findIndex_Some [OF Some] by simp
      then have "rowExists (m_y (monsters pl ! i))"
        using assms pl by (auto simp add: wellFormed_def)
      then show ?thesis
        using True pl ta Some by (simp add: moveMonster_def Let_def)
    qed
  qed
qed

text \<open>
  So on every session the methods can reach, \<open>placeMonster\<close> and \<open>moveMonster\<close> return
  a reply, and a state that a call leaves is again such a session.
\<close>

lemma reachable_no_TypeError:
  assumes "reachable g"
  shows "placeMonster g monsterId p type x y \<noteq> Inl TypeError"
    and "moveMonster g p movedId newX newY \<noteq> Inl TypeError"
  using wellFormed_no_TypeError [OF reachable_wellFormed [OF assms]] by simp_all

subsection \<open>Sessions played out\<close>

text \<open>A sequence of intents played from a reachable session ends in a reachable session.\<close>

lemma play_append:
  "play rnd g (xs @ ys) = (case play rnd g xs of None \<Rightarrow> None | Some g' \<Rightarrow> play rnd g' ys)"
  by (induction xs arbitrary: g) (auto split: option.splits)

lemma play_reachable:
  "reachable g \<Longrightarrow> play rnd g is = Some g' \<Longrightarrow> reachable g'"
proof (induction "is" arbitrary: g)
  case Nil
  then show ?case by simp
next
  case (Cons i rest)
  then obtain g1 where g1: "applyIntent rnd g i = Some g1" and rest: "play rnd g1 rest = Some g'"
    by (auto split: option.splits)
  have "reachable g1"
  proof (cases i)
    case (Place monsterId playerId type x y)
    then show ?thesis
      using g1 Cons.prems(1)
      by (cases "placeMonster g monsterId playerId type x y")
         (auto intro: reachable.placed [of g monsterId playerId type x y])
  next
    case (Move playerId monsterId newX newY)
    then show ?thesis
      using g1 Cons.prems(1)
      by (cases "moveMonster g playerId monsterId newX newY")
         (auto intro: reachable.moved [of g playerId monsterId newX newY])
  next
    case (EndTurn playerId)
    then show ?thesis
      using g1 Cons.prems(1) by (auto intro: reachable.turnEnded [of g rnd playerId])
  qed
  then show ?case
    using Cons.IH rest by blast
qed

lemma reachable_trioGame: "reachable trioGame"
  unfolding trioGame_def demoLobby_def
  by (intro reachable.started reachable.joined reachable.created)

text \<open>
  Two rounds with a collision of two vampires of \<open>P1\<close> lead from one rest to the
  next, with two more losses.
\<close>

lemma selfCollision_cycle:
  assumes "a \<noteq> b" and "n < 8"
  shows "play zeros (restGame n r ta) (selfCollision a b)
           = Some (restGame (n + 2) (r + 2) (movedOnly b))"
  using assms
  by (simp add: selfCollision_def restGame_def movedOnly_def place_defs move_defs turn_defs
      fun_eq_iff)

lemma first_collision:
  "play zeros demoGame
     [Place ''a1'' ''P1'' ''vampire'' 5 0, Move ''P1'' ''a1'' 5 1, EndTurn ''P1'',
      EndTurn ''P2'', EndTurn ''P2'',
      Place ''a2'' ''P1'' ''vampire'' 5 0, Move ''P1'' ''a2'' 5 1, EndTurn ''P1'']
   = Some (restGame 2 3 (movedOnly ''a2''))"
  by (simp add: restGame_def movedOnly_def demoGame_eq place_defs move_defs turn_defs
      fun_eq_iff)

lemma lastStand_reached: "play zeros demoGame lastStandIntents = Some lastStand"
proof -
  have tail: "play zeros (restGame 8 9 (movedOnly ''a8''))
       [EndTurn ''P2'', Place ''a9'' ''P1'' ''vampire'' 5 0, Move ''P1'' ''a9'' 5 1,
        EndTurn ''P1'', EndTurn ''P2'', Place ''a10'' ''P1'' ''vampire'' 5 0]
     = Some lastStand"
    by (simp add: restGame_def movedOnly_def lastStand_def vampireOf_def place_defs move_defs
        turn_defs fun_eq_iff)
  have c1: "play zeros (restGame 2 3 (movedOnly ''a2'')) (selfCollision ''a3'' ''a4'')
              = Some (restGame 4 5 (movedOnly ''a4''))"
    using selfCollision_cycle [of "''a3''" "''a4''" 2 3] by simp
  have c2: "play zeros (restGame 4 5 (movedOnly ''a4'')) (selfCollision ''a5'' ''a6'')
              = Some (restGame 6 7 (movedOnly ''a6''))"
    using selfCollision_cycle [of "''a5''" "''a6''" 4 5] by simp
  have c3: "play zeros (restGame 6 7 (movedOnly ''a6'')) (selfCollision ''a7'' ''a8'')
              = Some (restGame 8 9 (movedOnly ''a8''))"
    using selfCollision_cycle [of "''a7''" "''a8''" 6 7] by simp
  show ?thesis
    unfolding lastStandIntents_def
    by (simp only: play_append first_collision c1 c2 c3 tail option.case)
qed

lemma reachable_lastStand: "reachable lastStand"
  using play_reachable [OF reachable_demoGame lastStand_reached] .

text \<open>
  The move of \<open>a10\<close> onto \<open>a9\<close>: \<open>moveMonster\<close> calls \<open>handleConflict\<close> in the state
  \<open>arrivedStand\<close>, both vampires are removed one after the other, and the winner check
  follows.
\<close>

lemma arrivedStand_arrival:
  "arrival lastStand ''P1''
     \<lparr>p_id = ''P1'', edge = ''top'',
      monsters = [vampireOf ''P1'' ''a9'' 5 1, vampireOf ''P1'' ''a10'' 5 0], monstersLost = 8\<rparr>
     1 \<lparr>placedMonster = True, placedMonsterId = None, movedMonsters = {}\<rparr> ''a10'' 5 1
   = arrivedStand"
  by (simp add: arrival_def arrivedStand_def lastStand_def vampireOf_def setCell_def Let_def
      fun_eq_iff)

lemma lastStand_conflict:
  "moveMonster lastStand ''P1'' ''a10'' 5 1
     = Inr (Success ''Monster moved to (5, 1).'',
            declareWinner
              (removeMonster (removeMonster arrivedStand ''a10'' ''P1'') ''a9'' ''P1''))"
  by (simp add: arrivedStand_def lastStand_def vampireOf_def moveMonster_def
      getCurrentPlayer_def at_index_def hasPlaced_def hasMoved_def justPlaced_def
      isValidMove_def pathLoop.simps squarePasses_def cellAt_def rowExists_def setCell_def
      showInt_def showNat.simps Let_def handleConflict_def freshTurnAction_def fun_eq_iff)

lemma lastStand_end:
  "moveMonster lastStand ''P1'' ''a10'' 5 1
     = Inr (Success ''Monster moved to (5, 1).'', lastStandEnd)"
  by (simp add: lastStandEnd_def arrivedStand_def lastStand_def vampireOf_def move_defs fun_eq_iff)

lemma trioCollision_cycle:
  assumes "a \<noteq> b" and "n < 8"
  shows "play zeros (trioRest n r ta) (trioCollision a b)
           = Some (trioRest (n + 2) (r + 2) (movedOnly b))"
  using assms
  by (simp add: trioCollision_def trioRest_def movedOnly_def place_defs move_defs turn_defs
      findInsertionPoint.simps fun_eq_iff)

lemma trio_first_collision:
  "play zeros trioGame
     [Place ''a1'' ''P1'' ''vampire'' 5 0, Move ''P1'' ''a1'' 5 1, EndTurn ''P1'',
      EndTurn ''P2'', EndTurn ''P3'', EndTurn ''P2'', EndTurn ''P3'',
      Place ''a2'' ''P1'' ''vampire'' 5 0, Move ''P1'' ''a2'' 5 1, EndTurn ''P1'']
   = Some (trioRest 2 3 (movedOnly ''a2''))"
  by (simp add: trioRest_def movedOnly_def trioGame_eq place_defs move_defs turn_defs
      findInsertionPoint.simps fun_eq_iff)

lemma trioOut_reached: "play zeros trioGame trioOutIntents = Some trioOut"
proof -
  have tail: "play zeros (trioRest 8 9 (movedOnly ''a8''))
       [EndTurn ''P2'', EndTurn ''P3'',
        Place ''a9'' ''P1'' ''vampire'' 5 0, Move ''P1'' ''a9'' 5 1, EndTurn ''P1'',
        EndTurn ''P2'', EndTurn ''P3'',
        Place ''a10'' ''P1'' ''vampire'' 5 0, Move ''P1'' ''a10'' 5 1]
     = Some trioOut"
    by (simp add: trioRest_def movedOnly_def trioOut_def place_defs move_defs
        turn_defs findInsertionPoint.simps fun_eq_iff)
  have c1: "play zeros (trioRest 2 3 (movedOnly ''a2'')) (trioCollision ''a3'' ''a4'')
              = Some (trioRest 4 5 (movedOnly ''a4''))"
    using trioCollision_cycle [of "''a3''" "''a4''" 2 3] by simp
  have c2: "play zeros (trioRest 4 5 (movedOnly ''a4'')) (trioCollision ''a5'' ''a6'')
              = Some (trioRest 6 7 (movedOnly ''a6''))"
    using trioCollision_cycle [of "''a5''" "''a6''" 4 5] by simp
  have c3: "play zeros (trioRest 6 7 (movedOnly ''a6'')) (trioCollision ''a7'' ''a8'')
              = Some (trioRest 8 9 (movedOnly ''a8''))"
    using trioCollision_cycle [of "''a7''" "''a8''" 6 7] by simp
  show ?thesis
    unfolding trioOutIntents_def
    by (simp only: play_append trio_first_collision c1 c2 c3 tail option.case)
qed

lemma reachable_trioOut: "reachable trioOut"
  using play_reachable [OF reachable_trioGame trioOut_reached] .

lemmas leave_defs =
  removePlayer_def leaveOrder_def clearOwned_def jsSort_def byEdgeRank_def edgeRank_def
  findInsertionPoint.simps splice1_def checkForWinner_def activePlayers_def
  isPlayerEliminated_def at_index_def endGame_def cellAt_def rowExists_def setCell_def Let_def

lemma trioOut_leave: "removePlayer trioOut ''P3'' = trioOutLeft"
  by (simp add: trioOutLeft_def trioOut_def movedOnly_def leave_defs fun_eq_iff)

lemma stack_reached_vampires:
  "play zeros demoGame (stackIntents ''vampire'' ''vampire'')
     = Some (stackGame ''vampire'' ''vampire'')"
  by (simp add: stackIntents_def stackGame_def attacker_def blocker_def demoGame_eq
      place_defs move_defs turn_defs fun_eq_iff)




lemma roundEndTrio_reached: "play zeros trioGame staleIntents = Some roundEndTrio"
  by (simp add: staleIntents_def roundEndTrio_def vampireOf_def trioGame_eq place_defs turn_defs
      fun_eq_iff)

lemma roundEndTrio_endTurn:
  "endTurn zeros roundEndTrio ''P3''
     = Some (SuccessState (getState newRoundTrio), newRoundTrio)"
  by (simp add: newRoundTrio_def roundEndTrio_def vampireOf_def trioGame_eq turn_defs
      findInsertionPoint.simps getState_def playerView_def fun_eq_iff)

lemma newRoundTrio_leave: "removePlayer newRoundTrio ''P3'' = staleGame"
  by (simp add: staleGame_def newRoundTrio_def roundEndTrio_def vampireOf_def trioGame_eq
      leave_defs fun_eq_iff)

subsection \<open>Rosters and board stay consistent\<close>





lemma splice1_filter:
  "distinct (map m_id ms) \<Longrightarrow> findIndex (\<lambda>m. m_id m = k) ms = Some i
   \<Longrightarrow> splice1 i ms = filter (\<lambda>m. m_id m \<noteq> k) ms"
proof (induction ms arbitrary: i)
  case Nil
  then show ?case by simp
next
  case (Cons x xs)
  show ?case
  proof (cases "m_id x = k")
    case True
    then have "i = 0"
      using Cons.prems(2) by simp
    moreover have "m_id x \<notin> m_id ` set xs"
      using Cons.prems(1) by simp
    then have "\<forall>m \<in> set xs. m_id m \<noteq> k"
      using True by (metis image_eqI)
    then have "filter (\<lambda>m. m_id m \<noteq> k) xs = xs"
      by (simp add: filter_id_conv)
    ultimately show ?thesis
      using True by (simp add: splice1_def)
  next
    case False
    then obtain j where j: "findIndex (\<lambda>m. m_id m = k) xs = Some j" and i: "i = Suc j"
      using Cons.prems(2) by (auto split: option.splits)
    have "splice1 j xs = filter (\<lambda>m. m_id m \<noteq> k) xs"
      using Cons.IH [OF _ j] Cons.prems(1) by simp
    then show ?thesis
      using False i by (simp add: splice1_def)
  qed
qed


text \<open>
  A successful \<open>moveMonster\<close> has found the move valid and ends with the winner check
  on the state \<open>arrival\<close>, after \<open>handleConflict\<close> when the destination was occupied.
\<close>

lemma moveMonster_arrival:
  assumes ok: "moveMonster g p monsterId newX newY = Inr (Success msg, g')"
    and pl: "players g p = Some pl"
    and found: "findIndex (\<lambda>m. m_id m = monsterId) (monsters pl) = Some i"
  shows "isValidMove g p (monsters pl ! i) newX newY
         \<and> (\<exists>ta. turnActions g p = Some ta
              \<and> g' = declareWinner
                       (if board g newY newX \<noteq> None
                        then handleConflict (arrival g p pl i ta monsterId newX newY)
                               newX newY p (board g newY newX)
                        else arrival g p pl i ta monsterId newX newY))"
  using ok pl found
  by (auto simp add: moveMonster_def arrival_def setCell_def Let_def
      split: if_splits option.splits)

lemma arrival_fields:
  assumes "0 \<le> newY" and "newY \<le> 9"
  shows "players (arrival g p pl i ta monsterId newX newY)
           = (players g)(p \<mapsto> pl\<lparr>monsters :=
                (monsters pl)[i := (monsters pl ! i)\<lparr>m_x := newX, m_y := newY\<rparr>]\<rparr>)"
    and "board (arrival g p pl i ta monsterId newX newY) newY newX
           = Some ((monsters pl ! i)\<lparr>m_x := newX, m_y := newY\<rparr>)"
    and "cellAt (arrival g p pl i ta monsterId newX newY) newX newY
           = Some ((monsters pl ! i)\<lparr>m_x := newX, m_y := newY\<rparr>)"
  using assms by (simp_all add: arrival_def Let_def cellAt_def rowExists_def setCell_def)

lemma consistent_roster:
  assumes "consistent g" and "players g p = Some pl"
  shows "distinct (map m_id (monsters pl))" and "\<forall>m \<in> set (monsters pl). m_owner m = p"
  using assms by (auto simp add: consistent_def)

lemma consistent_cell:
  assumes "consistent g" and "board g y x = Some e"
  shows "m_x e = x" and "m_y e = y" and "rowExists y"
    and "\<exists>pl. players g (m_owner e) = Some pl \<and> e \<in> set (monsters pl)"
  using assms unfolding consistent_def by blast+

lemma consistent_cong:
  "players g' = players g \<Longrightarrow> board g' = board g \<Longrightarrow> consistent g' = consistent g"
  by (simp add: consistent_def)

lemma in_set_update_other:
  "e \<in> set ms \<Longrightarrow> e \<noteq> ms ! i \<Longrightarrow> e \<in> set (ms[i := v])"
  by (metis in_set_conv_nth length_list_update nth_list_update_neq)

lemma consistent_removeMonster:
  assumes inv: "consistent g"
  shows "consistent (removeMonster g k ownerId)"
proof (cases "players g ownerId")
  case None
  then show ?thesis using inv by (simp add: removeMonster_def)
next
  case (Some pl)
  show ?thesis
  proof (cases "findIndex (\<lambda>m. m_id m = k) (monsters pl)")
    case None
    then show ?thesis using inv Some by (simp add: removeMonster_def)
  next
    case found: (Some i)
    let ?ms = "monsters pl"
    let ?m = "?ms ! i"
    let ?g' = "removeMonster g k ownerId"
    have i: "i < length ?ms" and mid: "m_id ?m = k"
      using findIndex_Some [OF found] by simp_all
    have dist: "distinct (map m_id ?ms)" and own: "\<forall>m \<in> set ?ms. m_owner m = ownerId"
      using consistent_roster [OF inv Some] by simp_all
    have roster: "splice1 i ?ms = filter (\<lambda>m. m_id m \<noteq> k) ?ms"
      using splice1_filter [OF dist found] .
    have pl': "players ?g' = (players g)(ownerId \<mapsto>
        pl\<lparr>monsters := filter (\<lambda>m. m_id m \<noteq> k) ?ms, monstersLost := monstersLost pl + 1\<rparr>)"
      using removeMonster_players [OF Some found] roster by simp
    have board': "board ?g' y x = (if map_option m_id (cellAt g (m_x ?m) (m_y ?m)) = Some k
                                     \<and> y = m_y ?m \<and> x = m_x ?m
                                  then None else board g y x)" for y x
      using Some found by (auto simp add: removeMonster_def Let_def setCell_def)
    have a: "distinct (map m_id (monsters ql)) \<and> (\<forall>m \<in> set (monsters ql). m_owner m = q)"
      if "players ?g' q = Some ql" for q ql
    proof (cases "q = ownerId")
      case True
      then have "monsters ql = filter (\<lambda>m. m_id m \<noteq> k) ?ms"
        using that pl' by auto
      then show ?thesis
        using dist own True by (simp add: distinct_map_filter)
    next
      case False
      then have "players g q = Some ql"
        using that pl' by simp
      then show ?thesis
        using consistent_roster [OF inv] by blast
    qed
    have b: "m_x e = x \<and> m_y e = y \<and> rowExists y
             \<and> (\<exists>ql. players ?g' (m_owner e) = Some ql \<and> e \<in> set (monsters ql))"
      if cell: "board ?g' y x = Some e" for y x e
    proof -
      have old: "board g y x = Some e"
        and kept: "\<not> (map_option m_id (cellAt g (m_x ?m) (m_y ?m)) = Some k
                       \<and> y = m_y ?m \<and> x = m_x ?m)"
        using cell board' [of y x] by (auto split: if_splits)
      have at: "m_x e = x" "m_y e = y" "rowExists y"
        using consistent_cell [OF inv old] by simp_all
      obtain ql where ql: "players g (m_owner e) = Some ql" "e \<in> set (monsters ql)"
        using consistent_cell(4) [OF inv old] by blast
      show ?thesis
      proof (cases "m_owner e = ownerId")
        case False
        then show ?thesis
          using at ql pl' by simp
      next
        case True
        then have e_in: "e \<in> set ?ms"
          using ql Some by simp
        have "m_id e \<noteq> k"
        proof
          assume "m_id e = k"
          then have "e = ?m"
            using dist e_in i mid by (metis distinct_map inj_onD nth_mem)
          then have "cellAt g (m_x ?m) (m_y ?m) = Some e" "y = m_y ?m" "x = m_x ?m"
            using at old by (simp_all add: cellAt_def)
          then show False
            using kept \<open>m_id e = k\<close> by simp
        qed
        then have "e \<in> set (filter (\<lambda>m. m_id m \<noteq> k) ?ms)"
          using e_in by simp
        then show ?thesis
          using at True pl' by simp
      qed
    qed
    show ?thesis
      unfolding consistent_def using a b by blast
  qed
qed

lemma consistent_handleConflict:
  "consistent g \<Longrightarrow> consistent (handleConflict g x y p e)"
  by (simp add: handleConflict_def consistent_removeMonster split: option.splits)

lemma consistent_declareWinner: "consistent (declareWinner g) = consistent g"
  by (rule consistent_cong) simp_all

lemma consistent_arrival:
  assumes inv: "consistent g"
    and pl: "players g p = Some pl"
    and i: "i < length (monsters pl)"
    and row: "rowExists newY"
    and away: "newX \<noteq> m_x (monsters pl ! i) \<or> newY \<noteq> m_y (monsters pl ! i)"
  shows "consistent (arrival g p pl i ta monsterId newX newY)"
proof -
  let ?ms = "monsters pl"
  let ?m = "?ms ! i"
  let ?moved = "?m\<lparr>m_x := newX, m_y := newY\<rparr>"
  let ?g' = "arrival g p pl i ta monsterId newX newY"
  have dist: "distinct (map m_id ?ms)" and own: "\<forall>m \<in> set ?ms. m_owner m = p"
    using consistent_roster [OF inv pl] by simp_all
  have pl': "players ?g' = (players g)(p \<mapsto> pl\<lparr>monsters := ?ms[i := ?moved]\<rparr>)"
    by (simp add: arrival_def Let_def)
  have board': "board ?g' y x = (if y = newY \<and> x = newX then Some ?moved
                                  else if y = m_y ?m \<and> x = m_x ?m then None
                                  else board g y x)" for y x
    by (simp add: arrival_def Let_def setCell_def)
  have ids: "map m_id (?ms[i := ?moved]) = map m_id ?ms"
    using i by (simp add: map_update list_update_same_conv)
  have a: "distinct (map m_id (monsters ql)) \<and> (\<forall>m \<in> set (monsters ql). m_owner m = q)"
    if "players ?g' q = Some ql" for q ql
  proof (cases "q = p")
    case True
    then have ql: "monsters ql = ?ms[i := ?moved]"
      using that pl' by auto
    have "m_owner ?moved = p"
      using own i by simp
    then have "\<forall>m \<in> set (?ms[i := ?moved]). m_owner m = p"
      using own set_update_subset_insert [of ?ms i ?moved] by auto
    then show ?thesis
      using dist ids True ql by simp
  next
    case False
    then have "players g q = Some ql"
      using that pl' by simp
    then show ?thesis
      using consistent_roster [OF inv] by blast
  qed
  have b: "m_x e = x \<and> m_y e = y \<and> rowExists y
           \<and> (\<exists>ql. players ?g' (m_owner e) = Some ql \<and> e \<in> set (monsters ql))"
    if cell: "board ?g' y x = Some e" for y x e
  proof (cases "y = newY \<and> x = newX")
    case True
    then have e: "e = ?moved"
      using cell board' [of y x] by simp
    have "m_owner ?moved = p"
      using own i by simp
    moreover have "?moved \<in> set (?ms[i := ?moved])"
      using i by (simp add: set_update_memI)
    ultimately show ?thesis
      using True e row pl' by simp
  next
    case False
    then have old: "board g y x = Some e" and other: "\<not> (y = m_y ?m \<and> x = m_x ?m)"
      using cell board' [of y x] by (auto split: if_splits)
    have at: "m_x e = x" "m_y e = y" "rowExists y"
      using consistent_cell [OF inv old] by simp_all
    obtain ql where ql: "players g (m_owner e) = Some ql" "e \<in> set (monsters ql)"
      using consistent_cell(4) [OF inv old] by blast
    show ?thesis
    proof (cases "m_owner e = p")
      case False
      then show ?thesis
        using at ql pl' by simp
    next
      case True
      then have e_in: "e \<in> set ?ms"
        using ql pl by simp
      have "e \<noteq> ?m"
        using other at by auto
      then have "e \<in> set (?ms[i := ?moved])"
        using e_in by (rule in_set_update_other [rotated])
      then show ?thesis
        using at True pl' by simp
    qed
  qed
  show ?thesis
    unfolding consistent_def using a b by blast
qed

lemma consistent_moveMonster:
  assumes "moveMonster g p monsterId newX newY = Inr (r, g')" and inv: "consistent g"
  shows "consistent g'"
proof (cases r)
  case (Failure msg)
  then have "g' = g"
    using assms(1)
    by (auto simp add: moveMonster_def Let_def split: if_splits option.splits)
  then show ?thesis
    using inv by simp
next
  case (Success msg)
  obtain pl i where pl: "players g p = Some pl"
    and found: "findIndex (\<lambda>m. m_id m = monsterId) (monsters pl) = Some i"
    using assms(1) Success
    by (auto simp add: moveMonster_def Let_def split: if_splits option.splits)
  have ok: "moveMonster g p monsterId newX newY = Inr (Success msg, g')"
    using assms(1) Success by simp
  have valid: "isValidMove g p (monsters pl ! i) newX newY"
    using moveMonster_arrival [OF ok pl found] by simp
  obtain ta where g': "g' = declareWinner
       (if board g newY newX \<noteq> None
        then handleConflict (arrival g p pl i ta monsterId newX newY)
               newX newY p (board g newY newX)
        else arrival g p pl i ta monsterId newX newY)"
    using moveMonster_arrival [OF ok pl found] by blast
  have i: "i < length (monsters pl)"
    using findIndex_Some [OF found] by simp
  have row: "rowExists newY"
    and away: "newX \<noteq> m_x (monsters pl ! i) \<or> newY \<noteq> m_y (monsters pl ! i)"
    using valid unfolding isValidMove_iff by (simp_all add: rowExists_def)
  have "consistent (arrival g p pl i ta monsterId newX newY)"
    using consistent_arrival [OF inv pl i row away] .
  then show ?thesis
    unfolding g' by (simp add: consistent_declareWinner consistent_handleConflict)
next
  case (SuccessState st)
  then show ?thesis
    using assms(1)
    by (auto simp add: moveMonster_def Let_def split: if_splits option.splits)
next
  case Joined
  then show ?thesis
    using assms(1)
    by (auto simp add: moveMonster_def Let_def split: if_splits option.splits)
qed

lemma consistent_placeMonster:
  assumes res: "placeMonster g monsterId p type x y = Inr (r, g')"
    and inv: "consistent g"
    and fresh: "freshId g p monsterId"
  shows "consistent g'"
proof (cases "getCurrentPlayer g = Id p \<and> \<not> hasPlaced g p \<and> type \<in> set monsterTypes
              \<and> isValidPlacement g p x y")
  case False
  then have "g' = g"
    using res by (auto simp add: placeMonster_def split: if_splits)
  then show ?thesis
    using inv by simp
next
  case True
  then obtain pl where pl: "players g p = Some pl"
    by (auto simp add: isValidPlacement_def split: option.splits)
  have row: "rowExists y"
    using True pl by (auto simp add: isValidPlacement_def rowExists_def split: if_splits)
  let ?m = "\<lparr>m_id = monsterId, m_type = type, m_x = x, m_y = y, m_owner = p\<rparr>"
  let ?ms = "monsters pl"
  have pl': "players g' = (players g)(p \<mapsto> pl\<lparr>monsters := ?ms @ [?m]\<rparr>)"
    and board': "board g' = (board g)(y := (board g y)(x \<mapsto> ?m))"
    using res True pl
    by (auto simp add: placeMonster_def Let_def setCell_def split: option.splits)
  have dist: "distinct (map m_id ?ms)" and own: "\<forall>m \<in> set ?ms. m_owner m = p"
    using consistent_roster [OF inv pl] by simp_all
  have new: "monsterId \<notin> m_id ` set ?ms"
    using fresh pl by (simp add: freshId_def)
  have a: "distinct (map m_id (monsters ql)) \<and> (\<forall>m \<in> set (monsters ql). m_owner m = q)"
    if "players g' q = Some ql" for q ql
  proof (cases "q = p")
    case True
    then have "monsters ql = ?ms @ [?m]"
      using that pl' by auto
    then show ?thesis
      using dist own new True by auto
  next
    case False
    then have "players g q = Some ql"
      using that pl' by simp
    then show ?thesis
      using consistent_roster [OF inv] by blast
  qed
  have b: "m_x e = x' \<and> m_y e = y' \<and> rowExists y'
           \<and> (\<exists>ql. players g' (m_owner e) = Some ql \<and> e \<in> set (monsters ql))"
    if cell: "board g' y' x' = Some e" for y' x' e
  proof (cases "y' = y \<and> x' = x")
    case True
    then have "e = ?m"
      using cell board' by simp
    then show ?thesis
      using True row pl' by simp
  next
    case False
    then have old: "board g y' x' = Some e"
      using cell board' by (auto split: if_splits)
    have at: "m_x e = x'" "m_y e = y'" "rowExists y'"
      using consistent_cell [OF inv old] by simp_all
    obtain ql where ql: "players g (m_owner e) = Some ql" "e \<in> set (monsters ql)"
      using consistent_cell(4) [OF inv old] by blast
    show ?thesis
      using at ql pl pl' by (cases "m_owner e = p") auto
  qed
  show ?thesis
    unfolding consistent_def using a b by blast
qed

lemma consistent_endTurn:
  assumes "endTurn rnd g p = Some (r, g')" and "consistent g"
  shows "consistent g'"
proof (cases "getCurrentPlayer g = Id p")
  case False
  then have "g' = g"
    using assms(1) by (simp add: endTurn_def)
  then show ?thesis
    using assms(2) by simp
next
  case True
  let ?g2 = "if currentPlayerIndex (advance g) = 0 then newRound rnd (advance g) else advance g"
  have g2: "board ?g2 = board g" "players ?g2 = players g"
    by simp_all
  obtain b g3 where skip: "skipEliminated ?g2 = Some (b, g3)"
    and g': "g' = g3 \<or> g' = resetTurnActions g3 (getCurrentPlayer g3)"
    using assms(1) True
    by (auto simp add: endTurn_def Let_def split: option.splits if_splits)
  have "skipKeeps ?g2 (b, g3)"
    using skip by (rule skip_fields)
  then have "board g3 = board g" "players g3 = players g"
    using g2 by (simp_all add: skipKeeps_def)
  then have "players g' = players g" "board g' = board g"
    using g' by auto
  then show ?thesis
    using assms(2) consistent_cong by blast
qed

lemma consistent_addPlayer: "consistent g \<Longrightarrow> consistent (snd (addPlayer g p))"
proof -
  assume inv: "consistent g"
  show ?thesis
  proof (cases "snd (addPlayer g p) = g \<or> players (snd (addPlayer g p)) = players g")
    case True
    have "board (snd (addPlayer g p)) = board g"
      by (auto simp add: addPlayer_def split: list.splits)
    then show ?thesis
      using True inv consistent_cong [of "snd (addPlayer g p)" g] by auto
  next
    case False
    then obtain e where none: "players g p = None"
      and pl': "players (snd (addPlayer g p))
                  = (players g)(p \<mapsto> \<lparr>p_id = p, edge = e, monsters = [], monstersLost = 0\<rparr>)"
      and board': "board (snd (addPlayer g p)) = board g"
      by (auto simp add: addPlayer_def split: list.splits if_splits)
    have "m_owner m \<noteq> p" if "board g y x = Some m" for y x m
      using consistent_cell(4) [OF inv that] none by auto
    then show ?thesis
      using inv unfolding consistent_def pl' board' by (auto split: if_splits)
  qed
qed

lemma consistent_newGame: "consistent (newGame gameId creatorId)"
  unfolding newGame_def by (rule consistent_addPlayer) (simp add: consistent_def)

lemma consistent_startGame: "consistent g \<Longrightarrow> consistent (snd (startGame rnd g))"
  using consistent_cong [of "snd (startGame rnd g)" g] by (simp add: startGame_def)

text \<open>
  Leaving: the cells of the player's monsters are cleared, so no cell points to the
  deleted roster.
\<close>

lemma clearOwned_board:
  "board (clearOwned p m g) y x
     = (if (m_x m = x \<and> m_y m = y \<and> rowExists y)
           \<and> map_option m_owner (board g y x) = Some p
        then None else board g y x)"
  by (auto simp add: clearOwned_def cellAt_def setCell_def)

lemma fold_clearOwned_board:
  "board (fold (clearOwned p) ms g) y x
     = (if (\<exists>m \<in> set ms. m_x m = x \<and> m_y m = y \<and> rowExists y)
           \<and> map_option m_owner (board g y x) = Some p
        then None else board g y x)"
proof (induction ms arbitrary: g)
  case Nil
  then show ?case by simp
next
  case (Cons m ms)
  define A where "A = (m_x m = x \<and> m_y m = y \<and> rowExists y)"
  define B where "B = (map_option m_owner (board g y x) = Some p)"
  define C where "C = (\<exists>m' \<in> set ms. m_x m' = x \<and> m_y m' = y \<and> rowExists y)"
  have cell: "board (clearOwned p m g) y x = (if A \<and> B then None else board g y x)"
    unfolding A_def B_def by (rule clearOwned_board)
  have unf: "fold (clearOwned p) (m # ms) g = fold (clearOwned p) ms (clearOwned p m g)"
    by simp
  have "board (fold (clearOwned p) ms (clearOwned p m g)) y x
     = (if C \<and> map_option m_owner (board (clearOwned p m g) y x) = Some p
        then None else board (clearOwned p m g) y x)"
    unfolding C_def by (rule Cons.IH)
  then have step: "board (fold (clearOwned p) (m # ms) g) y x
     = (if C \<and> map_option m_owner (if A \<and> B then None else board g y x) = Some p
        then None else (if A \<and> B then None else board g y x))"
    unfolding unf cell .
  have main: "board (fold (clearOwned p) (m # ms) g) y x
     = (if (A \<or> C) \<and> B then None else board g y x)"
  proof (cases "A \<and> B")
    case True
    then show ?thesis unfolding step by simp
  next
    case False
    have "board (fold (clearOwned p) (m # ms) g) y x
        = (if C \<and> B then None else board g y x)"
      by (simp only: step False if_False B_def [symmetric])
    then show ?thesis
      using False by (cases A; cases B; cases C; simp)
  qed
  have ex: "(\<exists>m' \<in> set (m # ms). m_x m' = x \<and> m_y m' = y \<and> rowExists y) = (A \<or> C)"
    unfolding A_def C_def by simp
  show ?case
    by (simp only: ex main B_def)
qed

lemma consistent_removePlayer:
  assumes inv: "consistent g"
  shows "consistent (removePlayer g p)"
proof (cases "players g p")
  case None
  then show ?thesis using inv by (simp add: removePlayer_def)
next
  case (Some pl)
  let ?g' = "removePlayer g p"
  have pl': "players ?g' = (players g)(p := None)"
    using Some by (simp add: removePlayer_def Let_def endGame_def)
  have "board ?g' = board (fold (clearOwned p) (monsters pl)
                              (g\<lparr>availableEdges := jsSort byEdgeRank (availableEdges g @ [edge pl])\<rparr>))"
    using Some by (simp add: removePlayer_def Let_def endGame_def)
  then have board': "board ?g' y x
     = (if (\<exists>m \<in> set (monsters pl). m_x m = x \<and> m_y m = y \<and> rowExists y)
           \<and> map_option m_owner (board g y x) = Some p
        then None else board g y x)" for y x
    by (simp only: fold_clearOwned_board) auto
  have a: "distinct (map m_id (monsters ql)) \<and> (\<forall>m \<in> set (monsters ql). m_owner m = q)"
    if "players ?g' q = Some ql" for q ql
  proof -
    have "players g q = Some ql"
      using that pl' by (auto split: if_splits)
    then show ?thesis
      using consistent_roster [OF inv] by blast
  qed
  have b: "m_x e = x \<and> m_y e = y \<and> rowExists y
           \<and> (\<exists>ql. players ?g' (m_owner e) = Some ql \<and> e \<in> set (monsters ql))"
    if cell: "board ?g' y x = Some e" for y x e
  proof -
    have old: "board g y x = Some e"
      and kept: "\<not> ((\<exists>m \<in> set (monsters pl). m_x m = x \<and> m_y m = y \<and> rowExists y)
                     \<and> m_owner e = p)"
      using cell board' [of y x] by (auto split: if_splits)
    have at: "m_x e = x" "m_y e = y" "rowExists y"
      using consistent_cell [OF inv old] by simp_all
    obtain ql where ql: "players g (m_owner e) = Some ql" "e \<in> set (monsters ql)"
      using consistent_cell(4) [OF inv old] by blast
    have "m_owner e \<noteq> p"
    proof
      assume "m_owner e = p"
      then have "e \<in> set (monsters pl)"
        using ql Some by simp
      then show False
        using kept at \<open>m_owner e = p\<close> by blast
    qed
    then show ?thesis
      using at ql pl' by simp
  qed
  show ?thesis
    unfolding consistent_def using a b by blast
qed

text \<open>
  So rosters and board fit together in every session whose placements draw fresh ids;
  such a session is one the methods can reach.
\<close>

lemma reachableFresh_consistent: "reachableFresh g \<Longrightarrow> consistent g"
proof (induction rule: reachableFresh.induct)
  case (created gameId creatorId)
  show ?case by (rule consistent_newGame)
next
  case (joined g playerId)
  then show ?case by (simp add: consistent_addPlayer)
next
  case (left g playerId)
  then show ?case by (simp add: consistent_removePlayer)
next
  case (started g rnd)
  then show ?case by (simp add: consistent_startGame)
next
  case (placed g monsterId playerId type x y r g')
  then show ?case using consistent_placeMonster by blast
next
  case (moved g playerId monsterId newX newY r g')
  then show ?case using consistent_moveMonster by blast
next
  case (turnEnded g rnd playerId r g')
  then show ?case using consistent_endTurn by blast
qed

lemma reachableFresh_reachable: "reachableFresh g \<Longrightarrow> reachable g"
  by (induction rule: reachableFresh.induct) (auto intro: reachable.intros)


subsection \<open>Collisions\<close>

text \<open>
  The monster on the destination of a successful move belongs to the mover:
  \<open>isValidMove\<close> refuses a destination that holds another player's monster. So the
  branch of \<open>handleConflict\<close> for two owners, which holds the dominance table, is never
  taken in a call from \<open>moveMonster\<close>.
\<close>

lemma conflict_only_same_owner:
  assumes ok: "moveMonster g p monsterId newX newY = Inr (Success msg, g')"
    and there: "board g newY newX = Some e"
  shows "m_owner e = p"
proof -
  have cur: "getCurrentPlayer g = Id p"
    using ok by (auto simp add: moveMonster_def split: if_splits)
  obtain pl where pl: "players g p = Some pl"
    using ok cur by (auto simp add: moveMonster_def split: option.splits)
  obtain i where found: "findIndex (\<lambda>m. m_id m = monsterId) (monsters pl) = Some i"
    using ok cur pl by (auto simp add: moveMonster_def split: option.splits)
  have "isValidMove g p (monsters pl ! i) newX newY"
    using moveMonster_arrival [OF ok pl found] by simp
  then show ?thesis
    using opponent_destination_rejected [OF there] by blast
qed



text \<open>
  When the monster on the square has another type than the arriving one, nothing is
  removed: the roster keeps both monsters, no loss is counted, and the cell holds the
  arriving monster.
\<close>

lemma distinct_type_collision:
  assumes inv: "consistent g"
    and ok: "moveMonster g p monsterId newX newY = Inr (Success msg, g')"
    and pl: "players g p = Some pl"
    and found: "findIndex (\<lambda>m. m_id m = monsterId) (monsters pl) = Some i"
    and there: "board g newY newX = Some e"
    and differ: "m_type e \<noteq> m_type (monsters pl ! i)"
  shows "m_owner e = p \<and> e \<in> set (monsters pl) \<and> m_id e \<noteq> monsterId
         \<and> players g' = (players g)(p \<mapsto>
               pl\<lparr>monsters := (monsters pl)
                                 [i := (monsters pl ! i)\<lparr>m_x := newX, m_y := newY\<rparr>]\<rparr>)
         \<and> board g' newY newX = Some ((monsters pl ! i)\<lparr>m_x := newX, m_y := newY\<rparr>)"
proof -
  let ?ms = "monsters pl"
  let ?m = "?ms ! i"
  let ?moved = "?m\<lparr>m_x := newX, m_y := newY\<rparr>"
  have i: "i < length ?ms" and mid: "m_id ?m = monsterId"
    using findIndex_Some [OF found] by simp_all
  have valid: "isValidMove g p ?m newX newY"
    using moveMonster_arrival [OF ok pl found] by simp
  obtain ta where g': "g' = declareWinner
        (handleConflict (arrival g p pl i ta monsterId newX newY) newX newY p (Some e))"
    using moveMonster_arrival [OF ok pl found] there by auto
  let ?g4 = "arrival g p pl i ta monsterId newX newY"
  have bounds: "0 \<le> newY" "newY \<le> 9"
    and away: "newX \<noteq> m_x ?m \<or> newY \<noteq> m_y ?m"
    using valid unfolding isValidMove_iff by simp_all
  have owner_e: "m_owner e = p"
    using conflict_only_same_owner [OF ok there] .
  have dist: "distinct (map m_id ?ms)" and own: "\<forall>m \<in> set ?ms. m_owner m = p"
    using consistent_roster [OF inv pl] by simp_all
  have owner_m: "m_owner ?m = p"
    using own i by simp
  have e_in: "e \<in> set ?ms"
    using consistent_cell(4) [OF inv there] owner_e pl by auto
  have e_at: "m_x e = newX" "m_y e = newY"
    using consistent_cell [OF inv there] by simp_all
  have "e \<noteq> ?m"
    using away e_at by auto
  then have ids: "m_id e \<noteq> monsterId"
    using dist e_in i mid by (metis distinct_map inj_onD nth_mem)
  have conflict: "handleConflict ?g4 newX newY p (Some e) = ?g4"
    using arrival_fields(2) [OF bounds, of g p pl i ta monsterId newX] owner_m owner_e differ
    by (simp add: handleConflict_def)
  show ?thesis
    using owner_e e_in ids arrival_fields(1,2) [OF bounds, of g p pl i ta monsterId newX]
    unfolding g' conflict by simp
qed


subsection \<open>Elimination and the winner\<close>

text \<open>The end of \<open>removePlayer\<close> on an active session that keeps a player.\<close>

lemma removePlayer_tail:
  assumes act: "status g = Active" and pl: "players g p = Some pl"
    and some: "playerOrder (removePlayer g p) \<noteq> []"
  shows "\<exists>g5. status g5 = Active
           \<and> removePlayer g p
               = (if truthy (checkForWinner g5)
                  then endGame g5 (Some (key (checkForWinner g5)))
                  else if length (playerOrder g5) < 2 then endGame g5 None else g5)"
proof -
  let ?g1 = "g\<lparr>availableEdges := jsSort byEdgeRank (availableEdges g @ [edge pl])\<rparr>"
  let ?g3 = "leaveOrder (fold (clearOwned p) (monsters pl) ?g1) p"
  let ?g4 = "?g3\<lparr>players := (players ?g3)(p := None),
                 turnActions := (turnActions ?g3)(p := None)\<rparr>"
  let ?g5 = "?g4\<lparr>currentPlayerIndex := currentPlayerIndex ?g4 mod length (playerOrder ?g4)\<rparr>"
  have st4: "status ?g4 = Active"
    using act by simp
  have order: "playerOrder (removePlayer g p) = playerOrder ?g4"
    using pl by (simp add: removePlayer_def Let_def endGame_def)
  then have nonempty: "length (playerOrder ?g4) > 0"
    using some by simp
  have "removePlayer g p
      = (if truthy (checkForWinner ?g5)
         then endGame ?g5 (Some (key (checkForWinner ?g5)))
         else if length (playerOrder ?g5) < 2 then endGame ?g5 None else ?g5)"
    using pl st4 nonempty by (simp add: removePlayer_def Let_def)
  moreover have "status ?g5 = Active"
    using st4 by simp
  ultimately show ?thesis
    by blast
qed

lemma removePlayer_winner:
  assumes act: "status g = Active" and pl: "players g p = Some pl"
    and one: "activePlayers (removePlayer g p) = [v]"
    and many: "length (playerOrder (removePlayer g p)) > 1" and named: "v \<noteq> []"
  shows "status (removePlayer g p) = Finished \<and> winner (removePlayer g p) = Some v"
proof -
  have "playerOrder (removePlayer g p) \<noteq> []"
    using many by auto
  then obtain g5 where st: "status g5 = Active"
    and res: "removePlayer g p
               = (if truthy (checkForWinner g5)
                  then endGame g5 (Some (key (checkForWinner g5)))
                  else if length (playerOrder g5) < 2 then endGame g5 None else g5)"
    using removePlayer_tail [OF act pl] by blast
  have same: "players (removePlayer g p) = players g5"
    "playerOrder (removePlayer g p) = playerOrder g5"
    unfolding res by simp_all
  have "activePlayers g5 = [v]"
    using one activePlayers_cong [OF same] by simp
  moreover have "length (playerOrder g5) > 1"
    using many same by simp
  ultimately have "checkForWinner g5 = Id v"
    by (rule checkForWinner_single)
  then show ?thesis
    unfolding res using named st by (simp add: endGame_def)
qed

text \<open>
  C9. A player of the session is eliminated iff the loss count is at least 10. When
  \<open>removeMonster\<close> takes a monster from a player who has lost 9, the count is 10 and
  the player is eliminated; if the session has more than one player in its order and
  exactly one of them, \<open>w\<close>, is then not eliminated, \<open>checkForWinner\<close> returns \<open>w\<close>, and
  the winner check finishes the session with \<open>w\<close> as winner. That check ends every
  successful \<open>moveMonster\<close> and every \<open>removePlayer\<close> on an active session: after a
  successful move, and after a player has left an active session, if exactly one
  player of an order of more than one is not eliminated, the session is finished and
  that player has won. (Player ids are connection ids, never the empty string, which
  JavaScript takes as false in \<open>if (winner)\<close>.)
\<close>

theorem elimination_and_winner:
  "(players g q = Some ql \<longrightarrow> isPlayerEliminated g (Id q) = (monstersLost ql \<ge> 10)) \<and>
   (players g ownerId = Some pl \<and> monstersLost pl = 9
      \<and> findIndex (\<lambda>m. m_id m = monsterId) (monsters pl) = Some i
      \<and> activePlayers (removeMonster g monsterId ownerId) = [w]
      \<and> length (playerOrder g) > 1 \<and> w \<noteq> [] \<and> status g \<noteq> Finished
    \<longrightarrow> lostOf (removeMonster g monsterId ownerId) ownerId = Some 10
        \<and> isPlayerEliminated (removeMonster g monsterId ownerId) (Id ownerId)
        \<and> checkForWinner (removeMonster g monsterId ownerId) = Id w
        \<and> status (declareWinner (removeMonster g monsterId ownerId)) = Finished
        \<and> winner (declareWinner (removeMonster g monsterId ownerId)) = Some w) \<and>
   (moveMonster g p movedId newX newY = Inr (Success msg, g')
      \<and> activePlayers g' = [v] \<and> length (playerOrder g') > 1 \<and> v \<noteq> []
    \<longrightarrow> status g' = Finished \<and> winner g' = Some v) \<and>
   (status g = Active \<and> players g leaver = Some ll
      \<and> activePlayers (removePlayer g leaver) = [u]
      \<and> length (playerOrder (removePlayer g leaver)) > 1 \<and> u \<noteq> []
    \<longrightarrow> status (removePlayer g leaver) = Finished \<and> winner (removePlayer g leaver) = Some u)"
proof -
  have elim: "players g q = Some ql \<longrightarrow> isPlayerEliminated g (Id q) = (monstersLost ql \<ge> 10)"
    by (simp add: isPlayerEliminated_def)
  have brink: "lostOf (removeMonster g monsterId ownerId) ownerId = Some 10
        \<and> isPlayerEliminated (removeMonster g monsterId ownerId) (Id ownerId)
        \<and> checkForWinner (removeMonster g monsterId ownerId) = Id w
        \<and> status (declareWinner (removeMonster g monsterId ownerId)) = Finished
        \<and> winner (declareWinner (removeMonster g monsterId ownerId)) = Some w"
    if pl: "players g ownerId = Some pl" and nine: "monstersLost pl = 9"
      and found: "findIndex (\<lambda>m. m_id m = monsterId) (monsters pl) = Some i"
      and one: "activePlayers (removeMonster g monsterId ownerId) = [w]"
      and many: "length (playerOrder g) > 1" and named: "w \<noteq> []"
      and running: "status g \<noteq> Finished"
  proof -
    have "lostOf (removeMonster g monsterId ownerId) ownerId = Some 10"
      using pl nine found by (simp add: removeMonster_players lostOf_def)
    moreover have "isPlayerEliminated (removeMonster g monsterId ownerId) (Id ownerId)"
      using pl nine found by (simp add: removeMonster_players isPlayerEliminated_def)
    moreover have "checkForWinner (removeMonster g monsterId ownerId) = Id w"
      using one many by (simp add: checkForWinner_single)
    moreover have "status (declareWinner (removeMonster g monsterId ownerId)) = Finished
        \<and> winner (declareWinner (removeMonster g monsterId ownerId)) = Some w"
      using one many named running by (simp add: declareWinner_single)
    ultimately show ?thesis
      by simp
  qed
  have move: "status g' = Finished \<and> winner g' = Some v"
    if ok: "moveMonster g p movedId newX newY = Inr (Success msg, g')"
      and one: "activePlayers g' = [v]" and many: "length (playerOrder g') > 1"
      and named: "v \<noteq> []"
  proof -
    obtain g5 where g5: "g' = declareWinner g5" "status g5 = Active"
      using moveMonster_success [OF ok] by blast
    have "activePlayers g5 = [v]"
      using one g5(1) activePlayers_cong [of "declareWinner g5" g5] by simp
    moreover have "length (playerOrder g5) > 1"
      using many g5(1) by simp
    ultimately show ?thesis
      using declareWinner_single [of g5 v] named g5 by simp
  qed
  have leave: "status (removePlayer g leaver) = Finished \<and> winner (removePlayer g leaver) = Some u"
    if "status g = Active" and "players g leaver = Some ll"
      and "activePlayers (removePlayer g leaver) = [u]"
      and "length (playerOrder (removePlayer g leaver)) > 1" and "u \<noteq> []"
    using that by (rule removePlayer_winner)
  show ?thesis
    using elim brink move leave by blast
qed

theorem elimination_and_winner_witness:
  "reachable lastStand \<and>
   moveMonster lastStand ''P1'' ''a10'' 5 1
     = Inr (Success ''Monster moved to (5, 1).'',
            declareWinner
              (removeMonster (removeMonster arrivedStand ''a10'' ''P1'') ''a9'' ''P1'')) \<and>
   players (removeMonster arrivedStand ''a10'' ''P1'') ''P1''
     = Some \<lparr>p_id = ''P1'', edge = ''top'', monsters = [vampireOf ''P1'' ''a9'' 5 1],
             monstersLost = 9\<rparr> \<and>
   \<not> isPlayerEliminated (removeMonster arrivedStand ''a10'' ''P1'') (Id ''P1'') \<and>
   findIndex (\<lambda>m. m_id m = ''a9'') [vampireOf ''P1'' ''a9'' 5 1] = Some 0 \<and>
   activePlayers (removeMonster (removeMonster arrivedStand ''a10'' ''P1'') ''a9'' ''P1'')
     = [''P2''] \<and>
   length (playerOrder (removeMonster arrivedStand ''a10'' ''P1'')) > 1 \<and>
   status (removeMonster arrivedStand ''a10'' ''P1'') \<noteq> Finished \<and>
   lostOf (removeMonster (removeMonster arrivedStand ''a10'' ''P1'') ''a9'' ''P1'') ''P1''
     = Some 10 \<and>
   isPlayerEliminated
     (removeMonster (removeMonster arrivedStand ''a10'' ''P1'') ''a9'' ''P1'') (Id ''P1'') \<and>
   checkForWinner (removeMonster (removeMonster arrivedStand ''a10'' ''P1'') ''a9'' ''P1'')
     = Id ''P2'' \<and>
   moveMonster lastStand ''P1'' ''a10'' 5 1
     = Inr (Success ''Monster moved to (5, 1).'', lastStandEnd) \<and>
   activePlayers lastStandEnd = [''P2''] \<and> length (playerOrder lastStandEnd) > 1 \<and>
   status lastStandEnd = Finished \<and> winner lastStandEnd = Some ''P2'' \<and>
   reachable trioOut \<and> status trioOut = Active \<and>
   isPlayerEliminated trioOut (Id ''P1'') \<and>
   activePlayers trioOut = [''P2'', ''P3''] \<and>
   removePlayer trioOut ''P3'' = trioOutLeft \<and>
   activePlayers trioOutLeft = [''P2''] \<and> length (playerOrder trioOutLeft) > 1 \<and>
   status trioOutLeft = Finished \<and> winner trioOutLeft = Some ''P2''"
proof -
  let ?nine = "removeMonster arrivedStand ''a10'' ''P1''"
  let ?pl = "\<lparr>p_id = ''P1'', edge = ''top'', monsters = [vampireOf ''P1'' ''a9'' 5 1],
              monstersLost = 9\<rparr>"
  have pl: "players ?nine ''P1'' = Some ?pl"
    by (simp add: arrivedStand_def lastStand_def vampireOf_def removeMonster_def splice1_def
        Let_def)
  have nine: "monstersLost ?pl = 9"
    by simp
  have found: "findIndex (\<lambda>m. m_id m = ''a9'') (monsters ?pl) = Some 0"
    by (simp add: vampireOf_def)
  have one: "activePlayers (removeMonster ?nine ''a9'' ''P1'') = [''P2'']"
    by (simp add: activePlayers_def isPlayerEliminated_def arrivedStand_def lastStand_def
        vampireOf_def removeMonster_def splice1_def cellAt_def rowExists_def setCell_def Let_def)
  have many: "length (playerOrder ?nine) > 1" and running: "status ?nine \<noteq> Finished"
    by (simp_all add: arrivedStand_def lastStand_def)
  have notYet: "\<not> isPlayerEliminated ?nine (Id ''P1'')"
    using pl by (simp add: isPlayerEliminated_def)
  have left: "activePlayers lastStandEnd = [''P2'']" "length (playerOrder lastStandEnd) > 1"
    by (simp_all add: lastStandEnd_def arrivedStand_def lastStand_def activePlayers_def
        isPlayerEliminated_def)
  have trio: "status trioOut = Active" "isPlayerEliminated trioOut (Id ''P1'')"
    "activePlayers trioOut = [''P2'', ''P3'']"
    "players trioOut ''P3''
       = Some \<lparr>p_id = ''P3'', edge = ''left'', monsters = [], monstersLost = 0\<rparr>"
    by (simp_all add: trioOut_def activePlayers_def isPlayerEliminated_def)
  have gone: "activePlayers trioOutLeft = [''P2'']" "length (playerOrder trioOutLeft) > 1"
    by (simp_all add: trioOutLeft_def trioOut_def activePlayers_def isPlayerEliminated_def)
  show ?thesis
    using reachable_lastStand lastStand_conflict lastStand_end reachable_trioOut trioOut_leave
      pl nine found one many running notYet left trio gone
      elimination_and_winner [where g = ?nine and q = "''P1''" and ql = ?pl
        and ownerId = "''P1''" and pl = ?pl and monsterId = "''a9''" and i = 0
        and w = "''P2''"]
      elimination_and_winner [where g = lastStand and p = "''P1''" and movedId = "''a10''"
        and newX = 5 and newY = 1 and msg = "''Monster moved to (5, 1).''"
        and g' = lastStandEnd and v = "''P2''"]
      elimination_and_winner [where g = trioOut and leaver = "''P3''" and u = "''P2''"
        and ll = "\<lparr>p_id = ''P3'', edge = ''left'', monsters = [], monstersLost = 0\<rparr>"]
    by simp
qed

subsection \<open>Turn records after the round boundary\<close>

text \<open>
  C6 states that at the round boundary every player's turn record is reset. \<open>endTurn\<close>
  resets the record of the new current player only, and the records of the others
  keep what the last round left in them. In the three-player session \<open>P1\<close> and \<open>P2\<close>
  place a vampire each in round 1; when \<open>P3\<close> ends the turn, round 2 begins with \<open>P3\<close>
  first, and the records of \<open>P1\<close> and \<open>P2\<close> still say that they have placed. When
  \<open>P3\<close> then leaves, \<open>P1\<close> is the current player of round 2 without having passed
  \<open>endTurn\<close>, and \<open>P1\<close>'s first placement of the round, valid in itself, is refused as
  a second one; with the records reset it is accepted.
\<close>

theorem round_boundary_leaves_stale_records:
  "play zeros trioGame staleIntents = Some roundEndTrio \<and>
   (currentPlayerIndex roundEndTrio + 1) mod length (playerOrder roundEndTrio) = 0 \<and>
   endTurn zeros roundEndTrio ''P3''
     = Some (SuccessState (getState newRoundTrio), newRoundTrio) \<and>
   g_round newRoundTrio = g_round roundEndTrio + 1 \<and>
   getCurrentPlayer newRoundTrio = Id ''P3'' \<and>
   turnActions newRoundTrio ''P1''
     = Some \<lparr>placedMonster = True, placedMonsterId = None, movedMonsters = {}\<rparr> \<and>
   turnActions newRoundTrio ''P2''
     = Some \<lparr>placedMonster = True, placedMonsterId = None, movedMonsters = {}\<rparr> \<and>
   turnActions newRoundTrio ''P1'' \<noteq> Some freshTurnAction \<and>
   removePlayer newRoundTrio ''P3'' = staleGame \<and>
   getCurrentPlayer staleGame = Id ''P1'' \<and> g_round staleGame = 2 \<and>
   isValidPlacement staleGame ''P1'' 4 0 \<and>
   placeMonster staleGame ''a2'' ''P1'' ''vampire'' 4 0
     = Inr (Failure ''You have already placed a monster this turn.'', staleGame) \<and>
   (\<exists>g'. placeMonster (resetTurnActions staleGame Null) ''a2'' ''P1'' ''vampire'' 4 0
           = Inr (Success ''Monster vampire placed at (4, 0).'', g'))"
proof -
  have facts: "(currentPlayerIndex roundEndTrio + 1) mod length (playerOrder roundEndTrio) = 0"
    "g_round newRoundTrio = g_round roundEndTrio + 1"
    "getCurrentPlayer newRoundTrio = Id ''P3''"
    "turnActions newRoundTrio ''P1''
       = Some \<lparr>placedMonster = True, placedMonsterId = None, movedMonsters = {}\<rparr>"
    "turnActions newRoundTrio ''P2''
       = Some \<lparr>placedMonster = True, placedMonsterId = None, movedMonsters = {}\<rparr>"
    "turnActions newRoundTrio ''P1'' \<noteq> Some freshTurnAction"
    by (simp_all add: newRoundTrio_def roundEndTrio_def trioGame_eq freshTurnAction_def
        getCurrentPlayer_def at_index_def)
  have stale: "getCurrentPlayer staleGame = Id ''P1''" "g_round staleGame = 2"
    "isValidPlacement staleGame ''P1'' 4 0"
    "placeMonster staleGame ''a2'' ''P1'' ''vampire'' 4 0
       = Inr (Failure ''You have already placed a monster this turn.'', staleGame)"
    by (simp_all add: staleGame_def newRoundTrio_def roundEndTrio_def vampireOf_def trioGame_eq
        place_defs)
  have reset: "\<exists>g'. placeMonster (resetTurnActions staleGame Null) ''a2'' ''P1'' ''vampire'' 4 0
           = Inr (Success ''Monster vampire placed at (4, 0).'', g')"
    by (simp add: staleGame_def newRoundTrio_def roundEndTrio_def vampireOf_def trioGame_eq
        place_defs resetTurnActions_def)
  show ?thesis
    using roundEndTrio_reached roundEndTrio_endTurn newRoundTrio_leave facts stale reset
    by (simp only: simp_thms)
qed

end
